theory Spec2Isabelle
  imports Main "HOL-Library.Word" "HOL-Library.Char_ord" "HOL-Library.List_Lexorder"
begin

section \<open>Symbols, scopes and the compilation\<close>

text \<open>
  Symbols live in the compilation's arena and refer to each other by address. A symbol
  address is a natural number; a possibly-null pointer is an \<open>option\<close>. A scope is a
  base class of its symbol (\<open>thisSym\<close>), so a scope is addressed by the address of that
  symbol and \<open>Scope::asSymbol\<close> is the identity on addresses.
\<close>

type_synonym sym = nat

datatype SymbolKind =
    Root | CompilationUnit | Definition | Package
  | ModuleInstance | InterfaceInstance | ProgramInstance
  | GenerateBlock | GenerateBlockArray
  | Variable | FormalArgument | Subroutine | Parameter
  | EnumValue | EnumType
  | ExplicitImport | WildcardImport | TransparentMember
  | Port | InterfacePort | ContinuousAssign | ProceduralBlock

datatype DefinitionKind = Module | Interface | Program

datatype SyntaxKind = EnumTypeSyntax | OtherSyntax

text \<open>
  What a run of the program can end in besides a value: a failed \<open>ASSERT\<close>, and the
  dereference of a null pointer, of an end iterator or of an index out of range.
\<close>

datatype error = AssertionFailure | NullDereference

text \<open>
  A lazily resolved declared type: the kind of the syntax it was declared with
  (\<open>getSourceOrNull\<close>) and the type symbol it resolves to (\<open>get\<close>).
\<close>

record LazyType =
  sourceOrNull :: "SyntaxKind option"
  resolved :: "sym option"

text \<open>
  One record for every symbol class: the fields of \<open>Symbol\<close> itself, then the fields
  of the subclasses the code reads (\<open>TransparentMemberSymbol::wrapped\<close>,
  \<open>ExplicitImportSymbol::importedSymbol()\<close>, \<open>WildcardImportSymbol::getPackage()\<close>,
  \<open>GenerateBlockSymbol::isInstantiated\<close>, \<open>InstanceSymbol::definition\<close>,
  \<open>DefinitionSymbol::definitionKind\<close> and \<open>parameters\<close> (each parameter by its
  \<open>hasDefault()\<close>), the lazy declared type of variables, arguments, subroutines and
  parameters, and \<open>EnumType::values()\<close>).
\<close>

record Symbol =
  kind :: SymbolKind
  name :: string
  parentScope :: "sym option"
  nextInScope :: "sym option"
  indexInScope :: "32 word"
  wrapped :: sym
  importedSymbol :: "sym option"
  package :: "sym option"
  isInstantiated :: bool
  definitionOf :: sym
  definitionKind :: DefinitionKind
  parameters :: "bool list"
  lazyType :: LazyType
  enumValues :: "sym list"

text \<open>A symbol as its constructor leaves it: no parent, no sibling, index 0.\<close>

definition newSymbol :: "SymbolKind \<Rightarrow> string \<Rightarrow> Symbol" where
  "newSymbol k n =
     \<lparr>kind = k, name = n, parentScope = None, nextInScope = None, indexInScope = 0,
      wrapped = 0, importedSymbol = None, package = None, isInstantiated = False,
      definitionOf = 0, definitionKind = Module, parameters = [],
      lazyType = \<lparr>sourceOrNull = None, resolved = None\<rparr>, enumValues = []\<rparr>"

record Scope =
  firstMember :: "sym option"
  lastMember :: "sym option"
  nameMap :: "string \<rightharpoonup> sym"
  importDataIndex :: "nat option"
  deferredMemberIndex :: "nat option"

text \<open>
  The deferred data of a scope, as far as member insertion reads it: the registered
  transparent types, each the anchor to insert after and the symbol whose declared
  type it is.
\<close>

record DeferredMemberData =
  transparentTypes :: "(sym option \<times> sym) list"

subsection \<open>Lookup reference points and results\<close>

record LookupRefPoint =
  scope :: "sym option"
  index :: "32 word"

definition LookupRefPoint_max :: LookupRefPoint where
  "LookupRefPoint_max = \<lparr>scope = None, index = 4294967295\<rparr>"

definition LookupRefPoint_min :: LookupRefPoint where
  "LookupRefPoint_min = \<lparr>scope = None, index = 0\<rparr>"

definition before :: "(sym \<Rightarrow> Symbol) \<Rightarrow> sym \<Rightarrow> LookupRefPoint" where
  "before h s = \<lparr>scope = parentScope (h s), index = indexInScope (h s)\<rparr>"

definition after :: "(sym \<Rightarrow> Symbol) \<Rightarrow> sym \<Rightarrow> LookupRefPoint" where
  "after h s = \<lparr>scope = parentScope (h s), index = indexInScope (h s) + 1\<rparr>"

definition startOfScope :: "sym \<Rightarrow> LookupRefPoint" where
  "startOfScope sc = \<lparr>scope = Some sc, index = 0\<rparr>"

definition endOfScope :: "sym \<Rightarrow> LookupRefPoint" where
  "endOfScope sc = \<lparr>scope = Some sc, index = 4294967295\<rparr>"

text \<open>\<open>LookupRefPoint::operator<\<close>\<close>

definition refPointLess :: "LookupRefPoint \<Rightarrow> LookupRefPoint \<Rightarrow> bool" where
  "refPointLess p other = (index p < index other)"

datatype LookupNameKind = Local | Scoped | Callable

datatype ResultKind = NotFound | Found | AmbiguousImport

record LookupResult =
  nameKind :: LookupNameKind
  referencePoint :: LookupRefPoint
  resultKind :: ResultKind
  resultWasImported :: bool
  symbol :: "sym option"
  potentialImports :: "sym list"

text \<open>\<open>LookupResult::clear\<close>: the state of a fresh result.\<close>

definition clear :: LookupResult where
  "clear = \<lparr>nameKind = Local, referencePoint = LookupRefPoint_max, resultKind = NotFound,
     resultWasImported = False, symbol = None, potentialImports = []\<rparr>"

definition setSymbol :: "LookupResult \<Rightarrow> sym \<Rightarrow> bool \<Rightarrow> LookupResult" where
  "setSymbol r found wasImported =
     r\<lparr>symbol := Some found, resultWasImported := wasImported, resultKind := Found\<rparr>"

definition addPotentialImport :: "LookupResult \<Rightarrow> sym \<Rightarrow> LookupResult" where
  "addPotentialImport r import =
     (let r1 = (if potentialImports r \<noteq> [] then r\<lparr>resultKind := AmbiguousImport\<rparr> else r)
      in r1\<lparr>potentialImports := potentialImports r1 @ [import]\<rparr>)"

text \<open>
  Modelled from the spec: \<open>LookupResult::referencePointMatters\<close> is declared outside
  the sources at hand; the reference point matters iff the name kind is Local or Scoped.
\<close>

definition referencePointMatters :: "LookupResult \<Rightarrow> bool" where
  "referencePointMatters r = (nameKind r = Local \<or> nameKind r = Scoped)"

subsection \<open>Tokens, net types and diagnostics\<close>

datatype TokenKind =
    Unknown
  | WireKeyword | WAndKeyword | WOrKeyword | TriKeyword | TriAndKeyword | TriOrKeyword
  | Tri0Keyword | Tri1Keyword | TriRegKeyword | Supply0Keyword | Supply1Keyword
  | UWireKeyword
  | Pull0Keyword | Pull1Keyword | Star
  | OtherToken nat

datatype NetKind =
    UnknownNet
  | Wire | WAnd | WOr | Tri | TriAnd | TriOr | Tri0 | Tri1 | TriReg | Supply0 | Supply1
  | UWire

record NetType =
  netKind :: NetKind
  netName :: string
  dataType :: sym

datatype SourceLocation = NoLocation | SourceLoc nat nat

text \<open>
  A diagnostic: its code, its location, the symbol it came from (a pointer that may be
  null), the optional coalesce count, and what \<open>isError()\<close> answers for its code.
\<close>

record Diagnostic =
  code :: nat
  location :: SourceLocation
  diagSymbol :: "sym option"
  coalesceCount :: "nat option"
  isError :: bool

text \<open>The reference \<open>addDiag\<close> hands back: the temporary slot, or an occurrence in the map.\<close>

datatype DiagRef = TempDiag | InDiagMap "nat \<times> SourceLocation" nat

subsection \<open>The compilation\<close>

text \<open>
  The hash maps the code iterates over (\<open>definitionMap\<close>, \<open>diagMap\<close>) are association
  lists with distinct keys, in the order the iteration happens to take; the maps it
  only searches are partial functions. \<open>numErrors\<close> is a \<open>size_t\<close>, and the definition
  index of a diagnostic group is a \<open>size_t\<close> whose sentinel is \<open>SIZE_MAX\<close>.
\<close>

record Compilation =
  symbols :: "sym \<Rightarrow> Symbol"
  nextFree :: sym
  scopes :: "sym \<Rightarrow> Scope"
  importData :: "sym list list"
  deferredData :: "DeferredMemberData list"
  packageMap :: "string \<rightharpoonup> sym"
  definitionMap :: "((string \<times> sym) \<times> sym) list"
  globalInstantiations :: "string list"
  root :: sym
  compilationUnits :: "sym list"
  topInstances :: "sym list"
  rootCompilationUnits :: "sym list"
  finalized :: bool
  finalizing :: bool
  diagMap :: "((nat \<times> SourceLocation) \<times> (Diagnostic list \<times> 64 word)) list"
  numErrors :: "64 word"
  tempDiag :: Diagnostic
  cachedSemanticDiagnostics :: "Diagnostic list option"
  hasSourceManager :: bool
  knownNetTypes :: "TokenKind \<rightharpoonup> NetType"
  attributeMap :: "sym \<rightharpoonup> nat list"
  errorLimit :: "32 word"

text \<open>\<open>Compilation::emplace\<close>: the arena hands out the next free address.\<close>

definition emplace :: "Compilation \<Rightarrow> Symbol \<Rightarrow> sym \<times> Compilation" where
  "emplace c s =
     (nextFree c, c\<lparr>symbols := (symbols c)(nextFree c := s), nextFree := Suc (nextFree c)\<rparr>)"

text \<open>\<open>emplace\<close> of a hash map: a key that is already bound keeps its value.\<close>

definition map_emplace :: "('k \<rightharpoonup> 'v) \<Rightarrow> 'k \<Rightarrow> 'v \<Rightarrow> ('k \<rightharpoonup> 'v)" where
  "map_emplace m k v = (case m k of None \<Rightarrow> m(k \<mapsto> v) | Some _ \<Rightarrow> m)"

subsection \<open>Member insertion\<close>

text \<open>
  \<open>Scope::insertMember\<close>. The assignments are made in the order the code makes them:
  the index is read from the anchor first, \<open>std::exchange\<close> then stores the member in
  the anchor's link (or in \<open>firstMember\<close>) and the old link goes to the member.
\<close>

definition insertMember :: "Compilation \<Rightarrow> sym \<Rightarrow> sym \<Rightarrow> sym option \<Rightarrow> error + Compilation" where
  "insertMember c this member at =
     (if parentScope (symbols c member) \<noteq> None then Inl AssertionFailure
      else if nextInScope (symbols c member) \<noteq> None then Inl AssertionFailure
      else
        let h = symbols c; sc = scopes c this;
            (h3, sc1) =
              (case at of
                 None \<Rightarrow>
                   let h1 = h(member := (h member)\<lparr>indexInScope := 1\<rparr>);
                       old = firstMember sc;
                       h2 = h1(member := (h1 member)\<lparr>nextInScope := old\<rparr>)
                   in (h2, sc\<lparr>firstMember := Some member\<rparr>)
               | Some a \<Rightarrow>
                   let h1 = h(member := (h member)\<lparr>indexInScope :=
                              indexInScope (h a) + (if lastMember sc = Some a then 1 else 0)\<rparr>);
                       old = nextInScope (h1 a);
                       h2 = h1(a := (h1 a)\<lparr>nextInScope := Some member\<rparr>);
                       h3 = h2(member := (h2 member)\<lparr>nextInScope := old\<rparr>)
                   in (h3, sc));
            sc2 = (if nextInScope (h3 member) = None then sc1\<lparr>lastMember := Some member\<rparr>
                   else sc1);
            h4 = h3(member := (h3 member)\<lparr>parentScope := Some this\<rparr>);
            sc3 = (if name (h4 member) \<noteq> []
                   then sc2\<lparr>nameMap := map_emplace (nameMap sc2) (name (h4 member)) member\<rparr>
                   else sc2)
        in Inr (c\<lparr>symbols := h4, scopes := (scopes c)(this := sc3)\<rparr>))"

text \<open>
  \<open>Compilation::getOrAddDeferredData\<close>: a scope with no deferred data yet gets a new,
  empty entry of the pool.
\<close>

definition getOrAddDeferredData :: "Compilation \<Rightarrow> sym \<Rightarrow> nat \<times> Compilation" where
  "getOrAddDeferredData c this =
     (case deferredMemberIndex (scopes c this) of
        Some i \<Rightarrow> (i, c)
      | None \<Rightarrow>
          (length (deferredData c),
           c\<lparr>deferredData := deferredData c @ [\<lparr>transparentTypes = []\<rparr>],
             scopes := (scopes c)(this := (scopes c this)
                \<lparr>deferredMemberIndex := Some (length (deferredData c))\<rparr>)\<rparr>))"

text \<open>
  Modelled from the spec: \<open>DeferredMemberData::registerTransparentType\<close> is declared
  outside the sources at hand; it registers the pair of the preceding member and the
  lazy type, here the symbol that owns the lazy type.
\<close>

definition registerTransparentType :: "Compilation \<Rightarrow> sym \<Rightarrow> sym option \<Rightarrow> sym \<Rightarrow> Compilation" where
  "registerTransparentType c this insertAt owner =
     (let (i, c1) = getOrAddDeferredData c this;
          dd = deferredData c1 ! i
      in c1\<lparr>deferredData := (deferredData c1)
           [i := dd\<lparr>transparentTypes := transparentTypes dd @ [(insertAt, owner)]\<rparr>]\<rparr>)"

text \<open>\<open>Scope::addMember\<close>\<close>

definition addMember :: "Compilation \<Rightarrow> sym \<Rightarrow> sym \<Rightarrow> error + Compilation" where
  "addMember c this s =
     (let hasLazyType =
            (case kind (symbols c s) of
               Variable \<Rightarrow> True | FormalArgument \<Rightarrow> True | Subroutine \<Rightarrow> True
             | Parameter \<Rightarrow> True | _ \<Rightarrow> False);
          c1 = (if hasLazyType \<and> sourceOrNull (lazyType (symbols c s)) = Some EnumTypeSyntax
                then registerTransparentType c this (lastMember (scopes c this)) s
                else c)
      in insertMember c1 this s (lastMember (scopes c1 this)))"

text \<open>
  \<open>Scope::realizeDeferredMembers\<close>, its first phase: for each registered transparent
  type that resolves to an enum type, every enum value is wrapped in a new
  \<open>TransparentMemberSymbol\<close>, which takes the name of the value, and spliced in after
  the anchor; the anchor then moves to the wrapper. The second phase hands queued
  syntax to symbol factories that are outside the sources at hand.
\<close>

fun spliceValues :: "Compilation \<Rightarrow> sym \<Rightarrow> sym list \<Rightarrow> sym option \<Rightarrow> error + Compilation" where
  "spliceValues c this [] insertAt = Inr c"
| "spliceValues c this (v # rest) insertAt =
     (let (w, c1) = emplace c ((newSymbol TransparentMember (name (symbols c v)))\<lparr>wrapped := v\<rparr>)
      in case insertMember c1 this w insertAt of
           Inl e \<Rightarrow> Inl e
         | Inr c2 \<Rightarrow> spliceValues c2 this rest (Some w))"

fun spliceTransparentTypes ::
  "Compilation \<Rightarrow> sym \<Rightarrow> (sym option \<times> sym) list \<Rightarrow> error + Compilation" where
  "spliceTransparentTypes c this [] = Inr c"
| "spliceTransparentTypes c this ((insertAt, owner) # rest) =
     (case resolved (lazyType (symbols c owner)) of
        None \<Rightarrow> spliceTransparentTypes c this rest
      | Some ty \<Rightarrow>
          if kind (symbols c ty) = EnumType
          then (case spliceValues c this (enumValues (symbols c ty)) insertAt of
                  Inl e \<Rightarrow> Inl e
                | Inr c1 \<Rightarrow> spliceTransparentTypes c1 this rest)
          else spliceTransparentTypes c this rest)"

definition realizeDeferredMembers :: "Compilation \<Rightarrow> sym \<Rightarrow> error + Compilation" where
  "realizeDeferredMembers c this =
     (case deferredMemberIndex (scopes c this) of
        None \<Rightarrow> Inl AssertionFailure
      | Some i \<Rightarrow>
          if i < length (deferredData c)
          then spliceTransparentTypes
                 (c\<lparr>scopes := (scopes c)(this := (scopes c this)\<lparr>deferredMemberIndex := None\<rparr>)\<rparr>)
                 this (transparentTypes (deferredData c ! i))
          else Inl NullDereference)"

text \<open>
  The sibling chain as a list: \<open>chain h p xs\<close> holds when following \<open>nextInScope\<close> from
  the pointer \<open>p\<close> visits exactly the addresses \<open>xs\<close> and then reaches null.
\<close>

primrec chain :: "(sym \<Rightarrow> Symbol) \<Rightarrow> sym option \<Rightarrow> sym list \<Rightarrow> bool" where
  "chain h p [] = (p = None)"
| "chain h p (x # xs) = (p = Some x \<and> chain h (nextInScope (h x)) xs)"

text \<open>The list after a member has been linked in behind an anchor, or at the head.\<close>

fun insertAfter :: "sym option \<Rightarrow> sym \<Rightarrow> sym list \<Rightarrow> sym list" where
  "insertAfter None m xs = m # xs"
| "insertAfter (Some a) m [] = []"
| "insertAfter (Some a) m (x # xs) =
     (if x = a then x # m # xs else x # insertAfter (Some a) m xs)"

text \<open>
  The state of a scope whose members are \<open>xs\<close>: the chain from \<open>firstMember\<close> is \<open>xs\<close>,
  \<open>lastMember\<close> is its last element, every member points back to the scope, and the
  indices start at 1 or above and never decrease along the chain.
\<close>

definition scopeMembers :: "Compilation \<Rightarrow> sym \<Rightarrow> sym list \<Rightarrow> bool" where
  "scopeMembers c this xs =
     (chain (symbols c) (firstMember (scopes c this)) xs
      \<and> lastMember (scopes c this) = (if xs = [] then None else Some (last xs))
      \<and> list_all (\<lambda>x. parentScope (symbols c x) = Some this) xs
      \<and> list_all (\<lambda>x. 1 \<le> indexInScope (symbols c x)) xs
      \<and> sorted (map (\<lambda>x. indexInScope (symbols c x)) xs))"

subsection \<open>Lookup\<close>

text \<open>\<open>Compilation::getPackage\<close>, \<open>addPackage\<close>, \<open>trackImport\<close> and \<open>queryImports\<close>\<close>

definition getPackage :: "Compilation \<Rightarrow> string \<Rightarrow> sym option" where
  "getPackage c lookupName = packageMap c lookupName"

definition addPackage :: "Compilation \<Rightarrow> sym \<Rightarrow> Compilation" where
  "addPackage c p = c\<lparr>packageMap := map_emplace (packageMap c) (name (symbols c p)) p\<rparr>"

definition trackImport :: "Compilation \<Rightarrow> sym \<Rightarrow> sym \<Rightarrow> Compilation" where
  "trackImport c this import =
     (case importDataIndex (scopes c this) of
        Some i \<Rightarrow> c\<lparr>importData := (importData c)[i := importData c ! i @ [import]]\<rparr>
      | None \<Rightarrow>
          c\<lparr>importData := importData c @ [[import]],
            scopes := (scopes c)(this := (scopes c this)
               \<lparr>importDataIndex := Some (length (importData c))\<rparr>)\<rparr>)"

definition queryImports :: "Compilation \<Rightarrow> nat option \<Rightarrow> error + sym list" where
  "queryImports c i =
     (case i of
        None \<Rightarrow> Inr []
      | Some k \<Rightarrow> if k < length (importData c) then Inr (importData c ! k)
                  else Inl NullDereference)"

text \<open>
  \<open>Scope::ensureMembers\<close> is declared outside the sources at hand: it runs
  \<open>realizeDeferredMembers\<close>, whose second phase calls symbol factories that are
  outside them too. The lookups take it as the parameter \<open>ensureMembers\<close>, a change of
  the compilation's state, and pass the state on as the code's \<open>mutable\<close> fields do.
\<close>

definition lookupDirect ::
  "(Compilation \<Rightarrow> sym \<Rightarrow> Compilation) \<Rightarrow> Compilation \<Rightarrow> sym \<Rightarrow> string
   \<Rightarrow> sym option \<times> Compilation" where
  "lookupDirect ensureMembers c this searchName =
     (if searchName = [] then (None, c)
      else
        let c1 = ensureMembers c this
        in case nameMap (scopes c1 this) searchName of
             None \<Rightarrow> (None, c1)
           | Some s \<Rightarrow>
               if kind (symbols c1 s) \<noteq> ExplicitImport then (Some s, c1) else (None, c1))"

text \<open>
  The direct search at the head of \<open>Scope::lookup\<close>, after \<open>ensureMembers\<close>: \<open>Some\<close> is
  the \<open>return\<close> inside \<open>if (locationGood)\<close>, \<open>None\<close> falls through to the imports. The
  imported symbol of an explicit import is dereferenced without a check.
\<close>

definition lookupLocal ::
  "Compilation \<Rightarrow> sym \<Rightarrow> string \<Rightarrow> LookupResult \<Rightarrow> (error + LookupResult) option" where
  "lookupLocal c this searchName result =
     (case nameMap (scopes c this) searchName of
        None \<Rightarrow> None
      | Some s \<Rightarrow>
          let locationGood =
                (if referencePointMatters result
                 then refPointLess (before (symbols c) s) (referencePoint result)
                 else True)
          in if locationGood
             then Some (case kind (symbols c s) of
                          ExplicitImport \<Rightarrow>
                            (case importedSymbol (symbols c s) of
                               None \<Rightarrow> Inl NullDereference
                             | Some t \<Rightarrow> Inr (setSymbol result t True))
                        | TransparentMember \<Rightarrow>
                            Inr (setSymbol result (wrapped (symbols c s)) False)
                        | _ \<Rightarrow> Inr (setSymbol result s False))
             else None)"

text \<open>
  The loop over the wildcard imports: it stops at the first import that lies after the
  reference point, dereferences the package of every import before that, and collects
  the hits in \<open>importResults\<close> and on the result.
\<close>

fun importLoop ::
  "(Compilation \<Rightarrow> sym \<Rightarrow> Compilation) \<Rightarrow> string \<Rightarrow> sym list \<Rightarrow> Compilation
   \<Rightarrow> (sym \<times> sym) list \<Rightarrow> LookupResult
   \<Rightarrow> error + ((sym \<times> sym) list \<times> LookupResult \<times> Compilation)" where
  "importLoop ensureMembers searchName [] c importResults result =
     Inr (importResults, result, c)"
| "importLoop ensureMembers searchName (import # rest) c importResults result =
     (if refPointLess (referencePoint result) (after (symbols c) import)
      then Inr (importResults, result, c)
      else case package (symbols c import) of
             None \<Rightarrow> Inl NullDereference
           | Some p \<Rightarrow>
               (case lookupDirect ensureMembers c p searchName of
                  (Some s, c1) \<Rightarrow>
                    importLoop ensureMembers searchName rest c1
                      (importResults @ [(import, s)]) (addPotentialImport result s)
                | (None, c1) \<Rightarrow>
                    importLoop ensureMembers searchName rest c1 importResults result))"

text \<open>
  \<open>Scope::lookup\<close>. The climb to the parent is a recursive call that an ill-formed
  parent chain can repeat forever, so the result is an \<open>option\<close>: \<open>None\<close> is a lookup
  that does not return. The package found at the root and the parent scope are
  dereferenced without a check.
\<close>

partial_function (option) lookup ::
  "(Compilation \<Rightarrow> sym \<Rightarrow> Compilation) \<Rightarrow> Compilation \<Rightarrow> sym \<Rightarrow> string \<Rightarrow> LookupResult
   \<Rightarrow> (error + LookupResult) option" where
  "lookup ensureMembers c0 this searchName result =
     (let c = ensureMembers c0 this
      in case lookupLocal c this searchName result of
           Some r \<Rightarrow> Some r
         | None \<Rightarrow>
             (case queryImports c (importDataIndex (scopes c this)) of
                Inl e \<Rightarrow> Some (Inl e)
              | Inr imps \<Rightarrow>
                  (case importLoop ensureMembers searchName imps c [] result of
                     Inl e \<Rightarrow> Some (Inl e)
                   | Inr (importResults, result1, c1) \<Rightarrow>
                       if importResults \<noteq> []
                       then Some (Inr (if length importResults = 1
                                       then setSymbol result1 (snd (importResults ! 0)) True
                                       else result1))
                       else if kind (symbols c1 this) = Root
                       then (if nameKind result1 = Scoped
                             then (case getPackage c1 searchName of
                                     None \<Rightarrow> Some (Inl NullDereference)
                                   | Some p \<Rightarrow> Some (Inr (setSymbol result1 p False)))
                             else Some (Inr result1))
                       else (case parentScope (symbols c1 this) of
                               None \<Rightarrow> Some (Inl NullDereference)
                             | Some parent \<Rightarrow>
                                 lookup ensureMembers c1 parent searchName
                                   (result1\<lparr>referencePoint := after (symbols c1) this\<rparr>)))))"

subsection \<open>Finalization\<close>

text \<open>
  \<open>Compilation::addDefinition\<close>: a definition in a compilation unit is keyed under the
  root. The parent scope is asserted to exist.
\<close>

definition addDefinition :: "Compilation \<Rightarrow> sym \<Rightarrow> error + Compilation" where
  "addDefinition c d =
     (case parentScope (symbols c d) of
        None \<Rightarrow> Inl AssertionFailure
      | Some sc \<Rightarrow>
          let target = (if kind (symbols c sc) = CompilationUnit then root c else sc);
              key = (name (symbols c d), target)
          in Inr (if map_of (definitionMap c) key = None
                  then c\<lparr>definitionMap := definitionMap c @ [(key, d)]\<rparr>
                  else c))"

text \<open>
  The test in the loop of \<open>getRoot\<close> over the definition map: each \<open>continue\<close> of the
  code is a \<open>False\<close>.
\<close>

definition isTopLevel :: "Compilation \<Rightarrow> (string \<times> sym) \<times> sym \<Rightarrow> bool" where
  "isTopLevel c entry =
     (let (key, d) = entry
      in if snd key \<noteq> root c then False
         else if definitionKind (symbols c d) \<noteq> Module then False
         else if name (symbols c d) \<in> set (globalInstantiations c) then False
         else list_all (\<lambda>hasDefault. hasDefault) (parameters (symbols c d)))"

text \<open>
  Modelled from the spec: \<open>ModuleInstanceSymbol::instantiate\<close> is outside the sources
  at hand; it creates the module instance of a definition, under the name it is given.
\<close>

definition instantiate :: "Compilation \<Rightarrow> string \<Rightarrow> sym \<Rightarrow> sym \<times> Compilation" where
  "instantiate c n d = emplace c ((newSymbol ModuleInstance n)\<lparr>definitionOf := d\<rparr>)"

fun instantiateAll :: "Compilation \<Rightarrow> sym list \<Rightarrow> sym list \<Rightarrow> error + (sym list \<times> Compilation)" where
  "instantiateAll c [] topList = Inr (topList, c)"
| "instantiateAll c (d # rest) topList =
     (let (inst, c1) = instantiate c (name (symbols c d)) d
      in case addMember c1 (root c1) inst of
           Inl e \<Rightarrow> Inl e
         | Inr c2 \<Rightarrow> instantiateAll c2 rest (topList @ [inst]))"

text \<open>
  \<open>Compilation::getRoot\<close>. \<open>std::sort\<close> by name is a sort by the key \<open>name\<close>; strings
  compare as \<open>string_view\<close>s do, lexicographically by unsigned characters.
\<close>

definition getRoot :: "Compilation \<Rightarrow> error + Compilation" where
  "getRoot c =
     (if finalized c then Inr c
      else if finalizing c then Inl AssertionFailure
      else
        let c1 = c\<lparr>finalizing := True\<rparr>;
            topDefinitions = map snd (filter (isTopLevel c1) (definitionMap c1));
            sortedDefinitions = sort_key (\<lambda>d. name (symbols c1 d)) topDefinitions
        in case instantiateAll c1 sortedDefinitions [] of
             Inl e \<Rightarrow> Inl e
           | Inr (topList, c2) \<Rightarrow>
               Inr (c2\<lparr>topInstances := topList,
                       rootCompilationUnits := compilationUnits c2,
                       finalized := True, finalizing := False\<rparr>))"

subsection \<open>Net types\<close>

text \<open>
  Modelled from the spec: \<open>LexerFacts::getTokenKindText\<close> is outside the sources at
  hand; the twelve net type keywords are wire, wand, wor, tri, triand, trior, tri0,
  tri1, trireg, supply0, supply1 and uwire.
\<close>

definition knownNetTypes_init :: "sym \<Rightarrow> (TokenKind \<rightharpoonup> NetType)" where
  "knownNetTypes_init logicType =
     [WireKeyword \<mapsto> \<lparr>netKind = Wire, netName = ''wire'', dataType = logicType\<rparr>,
      WAndKeyword \<mapsto> \<lparr>netKind = WAnd, netName = ''wand'', dataType = logicType\<rparr>,
      WOrKeyword \<mapsto> \<lparr>netKind = WOr, netName = ''wor'', dataType = logicType\<rparr>,
      TriKeyword \<mapsto> \<lparr>netKind = Tri, netName = ''tri'', dataType = logicType\<rparr>,
      TriAndKeyword \<mapsto> \<lparr>netKind = TriAnd, netName = ''triand'', dataType = logicType\<rparr>,
      TriOrKeyword \<mapsto> \<lparr>netKind = TriOr, netName = ''trior'', dataType = logicType\<rparr>,
      Tri0Keyword \<mapsto> \<lparr>netKind = Tri0, netName = ''tri0'', dataType = logicType\<rparr>,
      Tri1Keyword \<mapsto> \<lparr>netKind = Tri1, netName = ''tri1'', dataType = logicType\<rparr>,
      TriRegKeyword \<mapsto> \<lparr>netKind = TriReg, netName = ''trireg'', dataType = logicType\<rparr>,
      Supply0Keyword \<mapsto> \<lparr>netKind = Supply0, netName = ''supply0'', dataType = logicType\<rparr>,
      Supply1Keyword \<mapsto> \<lparr>netKind = Supply1, netName = ''supply1'', dataType = logicType\<rparr>,
      UWireKeyword \<mapsto> \<lparr>netKind = UWire, netName = ''uwire'', dataType = logicType\<rparr>,
      Unknown \<mapsto> \<lparr>netKind = UnknownNet, netName = ''<error>'', dataType = logicType\<rparr>]"

text \<open>
  \<open>Compilation::getNetType\<close>: a kind that is not in the map is answered with the entry
  of \<open>TokenKind::Unknown\<close>, whose iterator is dereferenced without a check.
\<close>

definition getNetType :: "(TokenKind \<rightharpoonup> NetType) \<Rightarrow> TokenKind \<Rightarrow> error + NetType" where
  "getNetType known k =
     (case known k of
        None \<Rightarrow> (case known Unknown of None \<Rightarrow> Inl NullDereference | Some n \<Rightarrow> Inr n)
      | Some n \<Rightarrow> Inr n)"


text \<open>
  \<open>Compilation::Compilation\<close>, as far as the properties below read the state it
  leaves: the root symbol (address 0), the logic type (address 1) that every net type
  refers to, the net type table, and empty maps, lists and flags. The other built-in
  types and the system subroutines are left out.
\<close>

definition newCompilation :: "32 word \<Rightarrow> Compilation" where
  "newCompilation limit =
     \<lparr>symbols = (\<lambda>_. newSymbol Variable [])(0 := newSymbol Root []),
      nextFree = 2,
      scopes = (\<lambda>_. \<lparr>firstMember = None, lastMember = None, nameMap = Map.empty,
                      importDataIndex = None, deferredMemberIndex = None\<rparr>),
      importData = [], deferredData = [], packageMap = Map.empty, definitionMap = [],
      globalInstantiations = [], root = 0, compilationUnits = [], topInstances = [],
      rootCompilationUnits = [], finalized = False, finalizing = False,
      diagMap = [], numErrors = 0,
      tempDiag = \<lparr>code = 0, location = NoLocation, diagSymbol = None,
                  coalesceCount = None, isError = False\<rparr>,
      cachedSemanticDiagnostics = None, hasSourceManager = False,
      knownNetTypes = knownNetTypes_init 1, attributeMap = Map.empty,
      errorLimit = limit\<rparr>"

subsection \<open>The diagnostic store\<close>

text \<open>
  Modelled from the spec: \<open>InstanceSymbol::isKind\<close> is outside the sources at hand;
  the instance kinds are the module, program and interface instances.
\<close>

definition isInstanceKind :: "SymbolKind \<Rightarrow> bool" where
  "isInstanceKind k = (k = ModuleInstance \<or> k = ProgramInstance \<or> k = InterfaceInstance)"

text \<open>
  The three walks up the parent scopes. Each is a loop that an ill-formed parent chain
  keeps running, so each returns an \<open>option\<close>, \<open>None\<close> for a walk that never ends.
\<close>

partial_function (option) getInstanceOrDef :: "(sym \<Rightarrow> Symbol) \<Rightarrow> sym option \<Rightarrow> sym option option" where
  "getInstanceOrDef h s =
     (case s of
        None \<Rightarrow> Some None
      | Some a \<Rightarrow>
          if kind (h a) \<noteq> Definition \<and> \<not> isInstanceKind (kind (h a))
          then getInstanceOrDef h (parentScope (h a))
          else Some (Some a))"

partial_function (option) isSuppressed :: "(sym \<Rightarrow> Symbol) \<Rightarrow> sym option \<Rightarrow> bool option" where
  "isSuppressed h s =
     (case s of
        None \<Rightarrow> Some False
      | Some a \<Rightarrow>
          if kind (h a) = GenerateBlock \<and> \<not> isInstantiated (h a) then Some True
          else isSuppressed h (parentScope (h a)))"

partial_function (option) isInsideDef :: "(sym \<Rightarrow> Symbol) \<Rightarrow> sym \<Rightarrow> bool option" where
  "isInsideDef h a =
     (if kind (h a) = Definition then Some True
      else case parentScope (h a) of
             None \<Rightarrow> Some False
           | Some p \<Rightarrow> isInsideDef h p)"

definition SIZE_MAX :: "64 word" where
  "SIZE_MAX = 18446744073709551615"

definition UINT32_MAX :: "32 word" where
  "UINT32_MAX = 4294967295"

definition alist_update :: "'k \<Rightarrow> 'v \<Rightarrow> ('k \<times> 'v) list \<Rightarrow> ('k \<times> 'v) list" where
  "alist_update k v kvs = map (\<lambda>(k', v'). if k' = k then (k', v) else (k', v')) kvs"

text \<open>
  \<open>Compilation::addDiag\<close>. The result is the reference handed back and the new state.
\<close>

definition addDiag :: "Compilation \<Rightarrow> Diagnostic \<Rightarrow> (error + DiagRef \<times> Compilation) option" where
  "addDiag c diag =
     (if diagSymbol diag = None then Some (Inl AssertionFailure)
      else if location diag = NoLocation then Some (Inl AssertionFailure)
      else case isSuppressed (symbols c) (diagSymbol diag) of
             None \<Rightarrow> None
           | Some suppressed \<Rightarrow>
               if suppressed then Some (Inr (TempDiag, c\<lparr>tempDiag := diag\<rparr>))
               else (case getInstanceOrDef (symbols c) (diagSymbol diag) of
                       None \<Rightarrow> None
                     | Some inst \<Rightarrow>
                         let isDef = (case inst of
                                        None \<Rightarrow> False
                                      | Some i \<Rightarrow> kind (symbols c i) = Definition);
                             key = (code diag, location diag)
                         in case map_of (diagMap c) key of
                              Some (diagList, defIndex) \<Rightarrow>
                                let diagList1 = diagList @ [diag];
                                    defIndex1 = (if isDef then of_nat (length diagList1) - 1
                                                 else defIndex)
                                in Some (Inr (InDiagMap key (length diagList1 - 1),
                                     c\<lparr>diagMap :=
                                         alist_update key (diagList1, defIndex1) (diagMap c)\<rparr>))
                            | None \<Rightarrow>
                                let c1 = (if isError diag
                                          then c\<lparr>numErrors := numErrors c + 1\<rparr> else c);
                                    newEntry = ([diag], if isDef then 0 else SIZE_MAX)
                                in Some (Inr (InDiagMap key 0,
                                     c1\<lparr>diagMap := diagMap c1 @ [(key, newEntry)]\<rparr>))))"

text \<open>
  The loop of \<open>getSemanticDiagnostics\<close> over the occurrences of one group, with its
  three variables \<open>found\<close>, \<open>inst\<close> and \<open>count\<close>.
\<close>

fun pickInstance ::
  "(sym \<Rightarrow> Symbol) \<Rightarrow> Diagnostic list \<Rightarrow> Diagnostic option \<times> sym option \<times> nat
   \<Rightarrow> (Diagnostic option \<times> sym option \<times> nat) option" where
  "pickInstance h [] acc = Some acc"
| "pickInstance h (diag # rest) (found, inst, count) =
     (case getInstanceOrDef h (diagSymbol diag) of
        None \<Rightarrow> None
      | Some None \<Rightarrow> pickInstance h rest (found, inst, count)
      | Some (Some s) \<Rightarrow>
          (case parentScope (h s) of
             None \<Rightarrow> pickInstance h rest (found, inst, count)
           | Some parent \<Rightarrow>
               (case isInsideDef h s of
                  None \<Rightarrow> None
                | Some inside \<Rightarrow>
                    if inside then pickInstance h rest (found, inst, count)
                    else if kind (h parent) \<noteq> Root \<and> kind (h parent) \<noteq> CompilationUnit
                    then pickInstance h rest (Some diag, Some s, count + 1)
                    else pickInstance h rest (found, inst, count + 1))))"

text \<open>
  The body of the loop over the groups: the diagnostic issued for one group, given the
  instance counts of the visitor. \<open>front()\<close> of an empty list has no value.
\<close>

definition front :: "Diagnostic list \<Rightarrow> error + Diagnostic" where
  "front diagList = (case diagList of [] \<Rightarrow> Inl NullDereference | d # _ \<Rightarrow> Inr d)"

definition coalesce ::
  "(sym \<Rightarrow> Symbol) \<Rightarrow> (sym \<Rightarrow> nat) \<Rightarrow> Diagnostic list \<times> 64 word \<Rightarrow> (error + Diagnostic) option" where
  "coalesce h instanceCount entry =
     (let (diagList, definitionIndex) = entry
      in if unat definitionIndex < length diagList
         then Some (Inr (diagList ! unat definitionIndex))
         else case pickInstance h diagList (None, None, 0) of
                None \<Rightarrow> None
              | Some (found, inst, count) \<Rightarrow>
                  (case found of
                     None \<Rightarrow> Some (front diagList)
                   | Some f \<Rightarrow>
                       (case inst of
                          None \<Rightarrow> Some (Inl NullDereference)
                        | Some i \<Rightarrow>
                            if instanceCount (definitionOf (h i)) > count
                            then (case getInstanceOrDef h (Some i) of
                                    None \<Rightarrow> None
                                  | Some e \<Rightarrow>
                                      Some (Inr (f\<lparr>diagSymbol := e,
                                                   coalesceCount := Some count\<rparr>)))
                            else Some (front diagList))))"

fun coalesceAll ::
  "(sym \<Rightarrow> Symbol) \<Rightarrow> (sym \<Rightarrow> nat) \<Rightarrow> (Diagnostic list \<times> 64 word) list \<Rightarrow> Diagnostic list
   \<Rightarrow> (error + Diagnostic list) option" where
  "coalesceAll h instanceCount [] results = Some (Inr results)"
| "coalesceAll h instanceCount (entry # rest) results =
     (case coalesce h instanceCount entry of
        None \<Rightarrow> None
      | Some (Inl e) \<Rightarrow> Some (Inl e)
      | Some (Inr d) \<Rightarrow> coalesceAll h instanceCount rest (results @ [d]))"

text \<open>The limit the visitor is built with: an \<open>errorLimit\<close> option of 0 is no limit.\<close>

definition effectiveErrorLimit :: "32 word \<Rightarrow> 32 word" where
  "effectiveErrorLimit limit = (if limit = 0 then UINT32_MAX else limit)"

text \<open>
  \<open>Compilation::getSemanticDiagnostics\<close>. The traversal \<open>getRoot().visit(visitor)\<close> runs
  the generic \<open>ASTVisitor\<close>, and \<open>Diagnostics::sort\<close> orders by source location; both are
  outside the sources at hand and are the parameters \<open>visit\<close>, which is given the
  visitor's error limit and returns the state after the traversal with the visitor's
  instance counts, and \<open>sortDiags\<close>.
\<close>

definition getSemanticDiagnostics ::
  "(32 word \<Rightarrow> Compilation \<Rightarrow> Compilation \<times> (sym \<Rightarrow> nat)) \<Rightarrow> (Diagnostic list \<Rightarrow> Diagnostic list)
   \<Rightarrow> Compilation \<Rightarrow> (error + Diagnostic list \<times> Compilation) option" where
  "getSemanticDiagnostics visit sortDiags c =
     (case cachedSemanticDiagnostics c of
        Some ds \<Rightarrow> Some (Inr (ds, c))
      | None \<Rightarrow>
          (case getRoot c of
             Inl e \<Rightarrow> Some (Inl e)
           | Inr c1 \<Rightarrow>
               let (c2, instanceCount) = visit (effectiveErrorLimit (errorLimit c1)) c1
               in case coalesceAll (symbols c2) instanceCount (map snd (diagMap c2)) [] of
                    None \<Rightarrow> None
                  | Some (Inl e) \<Rightarrow> Some (Inl e)
                  | Some (Inr results) \<Rightarrow>
                      let sorted = (if hasSourceManager c2 then sortDiags results else results)
                      in Some (Inr (sorted, c2\<lparr>cachedSemanticDiagnostics := Some sorted\<rparr>))))"

subsection \<open>The diagnostic visitor\<close>

text \<open>
  What a visit does to the compilation besides reading it is done by code outside the
  sources at hand: forcing a lazy field may record diagnostics, and \<open>visitDefault\<close>
  visits the children. Each such step is an event handed to the parameter \<open>force\<close>.
\<close>

datatype Node = SymbolNode sym | OtherNode nat

datatype VisitEvent =
    GetType Node | GetInitializer Node | GetValue Node | GetAttributeValue nat
  | VisitBody Node | VisitDefault Node

text \<open>
  \<open>DiagnosticVisitor::handleDefault\<close>. \<open>numErrors\<close> is a reference to the compilation's
  counter, read when the visit starts; the \<open>uint32_t\<close> limit is widened for the
  comparison. \<open>hasDeclaredType\<close> and \<open>hasBody\<close> say whether the node has a declared type
  and a \<open>getBody\<close> member.
\<close>

definition handleDefault ::
  "(VisitEvent \<Rightarrow> Compilation \<Rightarrow> Compilation) \<Rightarrow> (Node \<Rightarrow> bool) \<Rightarrow> (Node \<Rightarrow> bool)
   \<Rightarrow> 32 word \<Rightarrow> Node \<Rightarrow> Compilation \<Rightarrow> bool \<times> Compilation" where
  "handleDefault force hasDeclaredType hasBody limit node c =
     (if unat (numErrors c) > unat limit then (False, c)
      else
        let c1 = (case node of
                    SymbolNode s \<Rightarrow>
                      let c2 = (if hasDeclaredType node
                                then force (GetInitializer node) (force (GetType node) c)
                                else c);
                          c3 = (if kind (symbols c2 s) = Parameter \<or> kind (symbols c2 s) = EnumValue
                                then force (GetValue node) c2 else c2)
                      in fold (\<lambda>attr. force (GetAttributeValue attr))
                           (case attributeMap c3 s of None \<Rightarrow> [] | Some attrs \<Rightarrow> attrs) c3
                  | OtherNode _ \<Rightarrow> c);
            c4 = (if hasBody node then force (VisitBody node) c1 else c1)
        in (True, force (VisitDefault node) c4))"


text \<open>
  \<open>ancestor h s a\<close>: the symbol \<open>a\<close> is \<open>s\<close> itself or is reached from \<open>s\<close> through parent
  scopes.
\<close>

inductive ancestor :: "(sym \<Rightarrow> Symbol) \<Rightarrow> sym \<Rightarrow> sym \<Rightarrow> bool" for h :: "sym \<Rightarrow> Symbol" where
  self: "ancestor h s s"
| up: "parentScope (h s) = Some p \<Longrightarrow> ancestor h p a \<Longrightarrow> ancestor h s a"


subsection \<open>The imports a lookup consults\<close>

text \<open>
  The imports the loop reaches before it stops, and the symbols their packages hold
  under the searched name, in the order of the imports.
\<close>

definition consultedImports :: "Compilation \<Rightarrow> LookupResult \<Rightarrow> sym list \<Rightarrow> sym list" where
  "consultedImports c result imps =
     takeWhile (\<lambda>i. \<not> refPointLess (referencePoint result) (after (symbols c) i)) imps"

definition importHits ::
  "(Compilation \<Rightarrow> sym \<Rightarrow> Compilation) \<Rightarrow> Compilation \<Rightarrow> string \<Rightarrow> sym list \<Rightarrow> sym list" where
  "importHits ensureMembers c searchName is =
     List.map_filter
       (\<lambda>i. case package (symbols c i) of
               None \<Rightarrow> None
             | Some p \<Rightarrow> fst (lookupDirect ensureMembers c p searchName)) is"

subsection \<open>Example compilations\<close>

text \<open>
  A package \<open>p\<close> that declares \<open>parameter x = 1; parameter y = x;\<close>, built as
  \<open>addMembers\<close> builds it for a package declaration: the package symbol (address 2) is
  created, its members \<open>x\<close> (address 3) and \<open>y\<close> (address 4) are added to it, and the
  package is registered with \<open>addPackage\<close>. Nothing adds the package to a scope.
\<close>

definition packageExample :: Compilation where
  "packageExample =
     (let (p, c1) = emplace (newCompilation 64) (newSymbol Package ''p'');
          (x, c2) = emplace c1 (newSymbol Parameter ''x'');
          (y, c3) = emplace c2 (newSymbol Parameter ''y'')
      in case addMember c3 p x of
           Inl e \<Rightarrow> c3
         | Inr c4 \<Rightarrow> (case addMember c4 p y of Inl e \<Rightarrow> c4 | Inr c5 \<Rightarrow> addPackage c5 p))"

text \<open>
  Packages \<open>p\<close> (address 2) and \<open>q\<close> (address 4) that each declare a variable \<open>foo\<close>
  (addresses 3 and 5), and a compilation unit (address 6) under the root that imports
  \<open>p::*\<close> (address 7) and then \<open>q::*\<close> (address 8). A wildcard import has no name; the
  packages the imports resolve to are given with them. The symbols are created first,
  in the order of their addresses; then the members are added and the packages and
  imports registered, as \<open>addMembers\<close> does.
\<close>

definition importExampleSymbols :: Compilation where
  "importExampleSymbols =
     (let (p, c1) = emplace (newCompilation 64) (newSymbol Package ''p'');
          (fp, c2) = emplace c1 (newSymbol Variable ''foo'');
          (q, c3) = emplace c2 (newSymbol Package ''q'');
          (fq, c4) = emplace c3 (newSymbol Variable ''foo'');
          (u, c5) = emplace c4 (newSymbol CompilationUnit []);
          (ip, c6) = emplace c5 ((newSymbol WildcardImport [])\<lparr>package := Some p\<rparr>);
          (iq, c7) = emplace c6 ((newSymbol WildcardImport [])\<lparr>package := Some q\<rparr>)
      in c7)"

definition importExample :: Compilation where
  "importExample =
     (case addMember importExampleSymbols 2 3 of Inl e \<Rightarrow> importExampleSymbols | Inr c8 \<Rightarrow>
     (case addMember (addPackage c8 2) 4 5 of Inl e \<Rightarrow> c8 | Inr c9 \<Rightarrow>
     (case addMember (addPackage c9 4) (root c9) 6 of Inl e \<Rightarrow> c9 | Inr c10 \<Rightarrow>
     (case addMember c10 6 7 of Inl e \<Rightarrow> c10 | Inr c11 \<Rightarrow>
     (case addMember (trackImport c11 6 7) 6 8 of Inl e \<Rightarrow> c11 | Inr c12 \<Rightarrow>
        trackImport c12 6 8)))))"

text \<open>
  A package \<open>p\<close> (address 2) that declares a variable \<open>foo\<close> (address 3), and a
  compilation unit (address 4) under the root that imports \<open>p::*\<close> (address 5) and
  then \<open>nosuch::*\<close> (address 6), where no package \<open>nosuch\<close> exists: \<open>getPackage()\<close> of
  the second import is null.
\<close>

definition missingPackageExampleSymbols :: Compilation where
  "missingPackageExampleSymbols =
     (let (p, c1) = emplace (newCompilation 64) (newSymbol Package ''p'');
          (fp, c2) = emplace c1 (newSymbol Variable ''foo'');
          (u, c3) = emplace c2 (newSymbol CompilationUnit []);
          (ip, c4) = emplace c3 ((newSymbol WildcardImport [])\<lparr>package := Some p\<rparr>);
          (iq, c5) = emplace c4 ((newSymbol WildcardImport [])\<lparr>package := None\<rparr>)
      in c5)"

definition missingPackageExample :: Compilation where
  "missingPackageExample =
     (case addMember missingPackageExampleSymbols 2 3 of
        Inl e \<Rightarrow> missingPackageExampleSymbols | Inr c6 \<Rightarrow>
     (case addMember (addPackage c6 2) (root c6) 4 of Inl e \<Rightarrow> c6 | Inr c7 \<Rightarrow>
     (case addMember c7 4 5 of Inl e \<Rightarrow> c7 | Inr c8 \<Rightarrow>
     (case addMember (trackImport c8 4 5) 4 6 of Inl e \<Rightarrow> c8 | Inr c9 \<Rightarrow>
        trackImport c9 4 6))))"

text \<open>
  A scope (address 2) whose first member is a variable \<open>v\<close> (address 5) declared with
  an enum type (address 3) of the values \<open>A\<close> and \<open>B\<close> (addresses 4 and 6).
\<close>

definition enumExampleSymbols :: Compilation where
  "enumExampleSymbols =
     (let (s, c1) = emplace (newCompilation 64) (newSymbol Package ''p'');
          (e, c2) = emplace c1 ((newSymbol EnumType [])\<lparr>enumValues := [4, 6]\<rparr>);
          (a, c3) = emplace c2 (newSymbol EnumValue ''A'');
          (v, c4) = emplace c3 ((newSymbol Variable ''v'')
                      \<lparr>lazyType := \<lparr>sourceOrNull = Some EnumTypeSyntax, resolved = Some e\<rparr>\<rparr>);
          (b, c5) = emplace c4 (newSymbol EnumValue ''B'')
      in c5)"


text \<open>
  A compilation with the definitions \<open>B\<close> (a module without parameters, address 3),
  \<open>A\<close> (a module with one defaulted parameter, address 2), \<open>C\<close> (a module that is
  instantiated somewhere, address 4), \<open>D\<close> (an interface, address 5) and \<open>E\<close> (a module
  with a parameter that has no default, address 6), all keyed under the root, and a
  module \<open>F\<close> (address 7) nested in \<open>A\<close>, in the order a hash table may yield them.
\<close>

definition topLevelExample :: Compilation where
  "topLevelExample =
     (newCompilation 64)
       \<lparr>symbols := (symbols (newCompilation 64))
          (2 := (newSymbol Definition ''A'')\<lparr>parameters := [True]\<rparr>,
           3 := newSymbol Definition ''B'',
           4 := newSymbol Definition ''C'',
           5 := (newSymbol Definition ''D'')\<lparr>definitionKind := Interface\<rparr>,
           6 := (newSymbol Definition ''E'')\<lparr>parameters := [True, False]\<rparr>,
           7 := newSymbol Definition ''F''),
        nextFree := 8,
        definitionMap := [((''E'', 0), 6), ((''B'', 0), 3), ((''F'', 2), 7), ((''D'', 0), 5),
                          ((''A'', 0), 2), ((''C'', 0), 4)],
        globalInstantiations := [''C'']\<rparr>"


subsection \<open>The diagnostic issued for a group, in the words of the specification\<close>

text \<open>
  \<open>rooted h s\<close>: the parent chain of \<open>s\<close> ends, so the walks up from \<open>s\<close> return.
\<close>

inductive rooted :: "(sym \<Rightarrow> Symbol) \<Rightarrow> sym \<Rightarrow> bool" for h :: "sym \<Rightarrow> Symbol" where
  top: "parentScope (h s) = None \<Longrightarrow> rooted h s"
| below: "parentScope (h s) = Some p \<Longrightarrow> rooted h p \<Longrightarrow> rooted h s"

text \<open>
  The effective instance of a symbol, as the specification describes it: the first
  symbol that is a definition or an instance on the way from the symbol up through
  its parent scopes.
\<close>

inductive effectiveInstanceOf :: "(sym \<Rightarrow> Symbol) \<Rightarrow> sym \<Rightarrow> sym \<Rightarrow> bool"
  for h :: "sym \<Rightarrow> Symbol" where
  here: "kind (h s) = Definition \<or> isInstanceKind (kind (h s)) \<Longrightarrow> effectiveInstanceOf h s s"
| above: "kind (h s) \<noteq> Definition \<Longrightarrow> \<not> isInstanceKind (kind (h s)) \<Longrightarrow>
          parentScope (h s) = Some p \<Longrightarrow> effectiveInstanceOf h p i \<Longrightarrow>
          effectiveInstanceOf h s i"

text \<open>
  A symbol is inside a definition when it is a definition or one of its ancestors
  through parent scopes is.
\<close>

definition insideDefinition :: "(sym \<Rightarrow> Symbol) \<Rightarrow> sym \<Rightarrow> bool" where
  "insideDefinition h s = (\<exists>a. ancestor h s a \<and> kind (h a) = Definition)"

text \<open>
  An occurrence qualifies (is counted) when its symbol has an effective instance that
  has a parent scope and is not inside a definition; it is preferred when moreover
  that parent is neither the root nor a compilation unit.
\<close>

definition qualifies :: "(sym \<Rightarrow> Symbol) \<Rightarrow> Diagnostic \<Rightarrow> bool" where
  "qualifies h d =
     (\<exists>s i. diagSymbol d = Some s \<and> effectiveInstanceOf h s i
        \<and> parentScope (h i) \<noteq> None \<and> \<not> insideDefinition h i)"

definition prefers :: "(sym \<Rightarrow> Symbol) \<Rightarrow> Diagnostic \<Rightarrow> bool" where
  "prefers h d =
     (\<exists>s i p. diagSymbol d = Some s \<and> effectiveInstanceOf h s i
        \<and> parentScope (h i) = Some p \<and> \<not> insideDefinition h i
        \<and> kind (h p) \<noteq> Root \<and> kind (h p) \<noteq> CompilationUnit)"

text \<open>
  \<open>issuedFor h instanceCount (diagList, definitionIndex) r\<close>: \<open>r\<close> is the diagnostic
  the specification issues for the group. It is the occurrence at the definition index
  when that is an index of the list. Else, when there are preferred occurrences and
  the last of them has an effective instance whose definition has more counted
  instances than there are qualifying occurrences, it is a copy of that occurrence
  with the effective instance as its symbol and the number of qualifying occurrences
  as its coalesce count. Else it is the first occurrence.
\<close>

definition issuedFor ::
  "(sym \<Rightarrow> Symbol) \<Rightarrow> (sym \<Rightarrow> nat) \<Rightarrow> Diagnostic list \<times> 64 word \<Rightarrow> Diagnostic \<Rightarrow> bool" where
  "issuedFor h instanceCount entry r =
     (let diagList = fst entry; definitionIndex = snd entry;
          n = length (filter (qualifies h) diagList)
      in if unat definitionIndex < length diagList then r = diagList ! unat definitionIndex
         else case rev (filter (prefers h) diagList) of
                [] \<Rightarrow> r = hd diagList
              | f # _ \<Rightarrow>
                  (\<exists>s i. diagSymbol f = Some s \<and> effectiveInstanceOf h s i
                     \<and> r = (if n < instanceCount (definitionOf (h i))
                            then f\<lparr>diagSymbol := Some i, coalesceCount := Some n\<rparr>
                            else hd diagList)))"

text \<open>
  A top module \<open>T\<close> (definition 3, instance 4 under the root) that instantiates the
  module \<open>M\<close> (definition 2) three times (instances 5, 6 and 7), each instance with a
  variable (addresses 8, 9 and 10). The body of the definition \<open>T\<close> holds two instances
  of \<open>M\<close> of its own (addresses 11 and 13), with the variables 12 and 14. A fourth
  instance of \<open>M\<close> lies directly under the root (address 15), with the variable 16.
\<close>

definition hierarchyExample :: "sym \<Rightarrow> Symbol" where
  "hierarchyExample =
     (\<lambda>_. newSymbol Variable [])
       (0 := newSymbol Root [],
        2 := newSymbol Definition ''M'',
        3 := newSymbol Definition ''T'',
        4 := (newSymbol ModuleInstance ''T'')\<lparr>parentScope := Some 0, definitionOf := 3\<rparr>,
        5 := (newSymbol ModuleInstance ''m1'')\<lparr>parentScope := Some 4, definitionOf := 2\<rparr>,
        6 := (newSymbol ModuleInstance ''m2'')\<lparr>parentScope := Some 4, definitionOf := 2\<rparr>,
        7 := (newSymbol ModuleInstance ''m3'')\<lparr>parentScope := Some 4, definitionOf := 2\<rparr>,
        8 := (newSymbol Variable ''v'')\<lparr>parentScope := Some 5\<rparr>,
        9 := (newSymbol Variable ''v'')\<lparr>parentScope := Some 6\<rparr>,
        10 := (newSymbol Variable ''v'')\<lparr>parentScope := Some 7\<rparr>,
        11 := (newSymbol ModuleInstance ''m1'')\<lparr>parentScope := Some 3, definitionOf := 2\<rparr>,
        12 := (newSymbol Variable ''v'')\<lparr>parentScope := Some 11\<rparr>,
        13 := (newSymbol ModuleInstance ''m2'')\<lparr>parentScope := Some 3, definitionOf := 2\<rparr>,
        14 := (newSymbol Variable ''v'')\<lparr>parentScope := Some 13\<rparr>,
        15 := (newSymbol ModuleInstance ''m0'')\<lparr>parentScope := Some 0, definitionOf := 2\<rparr>,
        16 := (newSymbol Variable ''v'')\<lparr>parentScope := Some 15\<rparr>)"

text \<open>An error of code 17 at one location, reported at the symbol \<open>s\<close>.\<close>

definition errorAt :: "sym \<Rightarrow> Diagnostic" where
  "errorAt s = \<lparr>code = 17, location = SourceLoc 1 40, diagSymbol = Some s,
     coalesceCount = None, isError = True\<rparr>"

text \<open>
  A compilation after the traversal, with \<open>hierarchyExample\<close> as its symbols and seven
  groups in the diagnostic map: an error in two of the instances of \<open>M\<close> inside \<open>T\<close>;
  an error in all four instances of \<open>M\<close>; an error that also occurred in the
  definition \<open>M\<close> (definition index 1); an error in an instance within the body of the
  definition \<open>T\<close> and in one instance; an error only in instances within the body of the
  definition \<open>T\<close>; an error in the instance under the root and in one instance inside
  \<open>T\<close>; and an error only in the instance under the root.
\<close>

definition coalesceExample :: Compilation where
  "coalesceExample =
     (newCompilation 64)\<lparr>symbols := hierarchyExample, finalized := True,
        diagMap :=
          [((17, SourceLoc 1 40), ([errorAt 8, errorAt 9], SIZE_MAX)),
           ((18, SourceLoc 1 40),
              ([(errorAt 16)\<lparr>code := 18\<rparr>, (errorAt 8)\<lparr>code := 18\<rparr>,
                (errorAt 9)\<lparr>code := 18\<rparr>, (errorAt 10)\<lparr>code := 18\<rparr>], SIZE_MAX)),
           ((19, SourceLoc 1 40), ([(errorAt 8)\<lparr>code := 19\<rparr>, (errorAt 2)\<lparr>code := 19\<rparr>], 1)),
           ((20, SourceLoc 1 40),
              ([(errorAt 12)\<lparr>code := 20\<rparr>, (errorAt 8)\<lparr>code := 20\<rparr>], SIZE_MAX)),
           ((21, SourceLoc 1 40),
              ([(errorAt 12)\<lparr>code := 21\<rparr>, (errorAt 14)\<lparr>code := 21\<rparr>], SIZE_MAX)),
           ((22, SourceLoc 1 40),
              ([(errorAt 16)\<lparr>code := 22\<rparr>, (errorAt 8)\<lparr>code := 22\<rparr>], SIZE_MAX)),
           ((23, SourceLoc 1 40), ([(errorAt 16)\<lparr>code := 23\<rparr>], SIZE_MAX))]\<rparr>"

text \<open>The diagnostics expected for the groups of \<open>coalesceExample\<close>, in their order.\<close>

definition coalesceExampleIssued :: "Diagnostic list" where
  "coalesceExampleIssued =
     [(errorAt 9)\<lparr>diagSymbol := Some 6, coalesceCount := Some 2\<rparr>,
      (errorAt 16)\<lparr>code := 18\<rparr>,
      (errorAt 2)\<lparr>code := 19\<rparr>,
      (errorAt 8)\<lparr>code := 20, diagSymbol := Some 5, coalesceCount := Some 1\<rparr>,
      (errorAt 12)\<lparr>code := 21\<rparr>,
      (errorAt 8)\<lparr>code := 22, diagSymbol := Some 5, coalesceCount := Some 2\<rparr>,
      (errorAt 16)\<lparr>code := 23\<rparr>]"


section \<open>Properties\<close>

subsection \<open>The order of reference points\<close>

text \<open>
  C9: for every pair of lookup reference points, \<open>p < q\<close> holds exactly when the index
  of \<open>p\<close> is below the index of \<open>q\<close> as unsigned 32-bit numbers. The scope component
  is never inspected: replacing the scopes of both points by any others leaves the
  comparison unchanged, and the sentinels \<open>min\<close> and \<open>max\<close>, which carry a null scope
  and the indices 0 and \<open>UINT_MAX\<close>, compare by index alone.
\<close>

theorem refPointLess_index_only:
  "refPointLess p q = (unat (index p) < unat (index q))
   \<and> refPointLess (p\<lparr>scope := s\<rparr>) (q\<lparr>scope := t\<rparr>) = refPointLess p q
   \<and> scope LookupRefPoint_min = None \<and> scope LookupRefPoint_max = None
   \<and> refPointLess LookupRefPoint_min q = (0 < unat (index q))
   \<and> refPointLess p LookupRefPoint_max = (unat (index p) < 2 ^ 32 - 1)
   \<and> \<not> refPointLess LookupRefPoint_max q \<and> \<not> refPointLess p LookupRefPoint_min"
proof -
  have "unat (index q) < 2 ^ 32" "unat (index p) < 2 ^ 32"
    using unsigned_less [of "index q"] unsigned_less [of "index p"] by simp_all
  then show ?thesis
    by (simp add: refPointLess_def LookupRefPoint_min_def LookupRefPoint_max_def
        word_less_nat_alt)
qed

subsection \<open>The sibling chain under insertion\<close>

lemma chain_cong_next:
  "\<forall>x\<in>set xs. nextInScope (h' x) = nextInScope (h x) \<Longrightarrow> chain h' p xs = chain h p xs"
  by (induction xs arbitrary: p) auto

lemma chain_unique: "chain h p xs \<Longrightarrow> chain h p ys \<Longrightarrow> xs = ys"
proof (induction xs arbitrary: p ys)
  case Nil
  then show ?case by (cases ys) auto
next
  case (Cons x xs)
  then show ?case by (cases ys) auto
qed

lemma chain_suffix_at:
  "chain h p (as @ x # bs) \<Longrightarrow> chain h (nextInScope (h x)) bs"
  by (induction as arbitrary: p) auto

lemma chain_head_notin: "chain h (nextInScope (h x)) xs \<Longrightarrow> x \<notin> set xs"
proof
  assume c: "chain h (nextInScope (h x)) xs" and "x \<in> set xs"
  then obtain as bs where xs: "xs = as @ x # bs" by (auto simp: in_set_conv_decomp)
  with c have "chain h (nextInScope (h x)) bs" by (auto dest: chain_suffix_at)
  with c have "xs = bs" by (rule chain_unique)
  with xs show False by simp
qed

lemma chain_distinct: "chain h p xs \<Longrightarrow> distinct xs"
  by (induction xs arbitrary: p) (auto dest: chain_head_notin)

lemma chain_insertAfter:
  assumes "chain h p xs" "a \<in> set xs" "m \<notin> set xs"
    and "nextInScope (h' a) = Some m" "nextInScope (h' m) = nextInScope (h a)"
    and "\<forall>x. x \<noteq> a \<and> x \<noteq> m \<longrightarrow> nextInScope (h' x) = nextInScope (h x)"
  shows "chain h' p (insertAfter (Some a) m xs)"
  using assms
proof (induction xs arbitrary: p)
  case Nil
  then show ?case by simp
next
  case (Cons x xs)
  show ?case
  proof (cases "x = a")
    case True
    from Cons.prems have nx: "a \<notin> set xs" using True by (auto dest: chain_head_notin)
    have "chain h' (nextInScope (h a)) xs = chain h (nextInScope (h a)) xs"
      using Cons.prems nx by (intro chain_cong_next) auto
    with Cons.prems True show ?thesis by auto
  next
    case False
    with Cons.prems have "chain h' (nextInScope (h x)) (insertAfter (Some a) m xs)"
      by (intro Cons.IH) auto
    moreover have "nextInScope (h' x) = nextInScope (h x)" using False Cons.prems by auto
    ultimately show ?thesis using False Cons.prems by auto
  qed
qed

lemma set_insertAfter:
  "a \<in> set xs \<Longrightarrow> set (insertAfter (Some a) m xs) = insert m (set xs)"
  by (induction xs) auto

lemma insertAfter_Nil_iff: "insertAfter (Some a) m xs = [] \<longleftrightarrow> xs = []"
  by (cases xs) auto

lemma last_insertAfter:
  "a \<in> set xs \<Longrightarrow> distinct xs \<Longrightarrow>
   last (insertAfter (Some a) m xs) = (if last xs = a then m else last xs)"
  by (induction xs) (auto simp: insertAfter_Nil_iff)

lemma sorted_insertAfter_same:
  fixes f :: "sym \<Rightarrow> 32 word"
  assumes "sorted (map f xs)" "a \<in> set xs" "f m = f a"
  shows "sorted (map f (insertAfter (Some a) m xs))"
  using assms by (induction xs) (auto simp: set_insertAfter)

lemma sorted_insertAfter_last:
  fixes f :: "sym \<Rightarrow> 32 word"
  assumes "sorted (map f xs)" "a \<in> set xs" "distinct xs" "last xs = a" "f a \<le> f m"
  shows "sorted (map f (insertAfter (Some a) m xs))"
  using assms
proof (induction xs)
  case Nil
  then show ?case by simp
next
  case (Cons x xs)
  show ?case
  proof (cases "xs = []")
    case True
    with Cons.prems show ?thesis by auto
  next
    case False
    with Cons.prems have ax: "a \<in> set xs" "last xs = a" "x \<noteq> a" by auto
    with Cons have "sorted (map f (insertAfter (Some a) m xs))" by auto
    moreover have "f x \<le> f a" using Cons.prems ax by auto
    ultimately show ?thesis using Cons.prems ax by (auto simp: set_insertAfter)
  qed
qed



lemma insertMember_returns:
  "parentScope (symbols c member) = None \<Longrightarrow> nextInScope (symbols c member) = None \<Longrightarrow>
   \<exists>c'. insertMember c this member at = Inr c'"
  by (simp add: insertMember_def Let_def split: option.split prod.split)

lemma insertMember_other:
  assumes "insertMember c this member at = Inr c'" "x \<noteq> member"
  shows "indexInScope (symbols c' x) = indexInScope (symbols c x)"
    and "parentScope (symbols c' x) = parentScope (symbols c x)"
    and "Some x \<noteq> at \<Longrightarrow> nextInScope (symbols c' x) = nextInScope (symbols c x)"
  using assms
  by (auto simp: insertMember_def Let_def split: option.splits if_splits)

lemma insertMember_member:
  assumes "insertMember c this member at = Inr c'"
  shows "indexInScope (symbols c' member) =
           (case at of None \<Rightarrow> 1
            | Some a \<Rightarrow> if lastMember (scopes c this) = Some a
                        then indexInScope (symbols c a) + 1 else indexInScope (symbols c a))"
    and "parentScope (symbols c' member) = Some this"
    and "Some member \<noteq> at \<Longrightarrow> nextInScope (symbols c' member) =
           (case at of None \<Rightarrow> firstMember (scopes c this)
            | Some a \<Rightarrow> nextInScope (symbols c a))"
  using assms
  by (auto simp: insertMember_def Let_def split: option.splits if_splits)

lemma insertMember_anchor:
  assumes "insertMember c this member (Some a) = Inr c'" "a \<noteq> member"
  shows "nextInScope (symbols c' a) = Some member"
  using assms
  by (auto simp: insertMember_def Let_def split: option.splits if_splits)

lemma insertMember_scope:
  assumes "insertMember c this member at = Inr c'"
  shows "firstMember (scopes c' this) =
           (case at of None \<Rightarrow> Some member | Some a \<Rightarrow> firstMember (scopes c this))"
    and "lastMember (scopes c' this) =
           (if nextInScope (symbols c' member) = None then Some member
            else lastMember (scopes c this))"
  using assms
  by (auto simp: insertMember_def Let_def split: option.splits if_splits)



lemma word32_succ:
  fixes w :: "32 word"
  assumes "w \<noteq> 4294967295"
  shows "unat (w + 1) = unat w + 1"
proof -
  have "unat w \<noteq> unat (4294967295 :: 32 word)"
    using assms by (simp add: word_unat_eq_iff)
  moreover have "unat w < 2 ^ 32" using unsigned_less [of w] by simp
  ultimately have "unat w + 1 < 2 ^ 32" by simp
  then show ?thesis by (simp add: unat_word_ariths)
qed

lemma word32_succ_le:
  fixes w :: "32 word"
  assumes "w \<noteq> 4294967295"
  shows "w \<le> w + 1" "1 \<le> w + 1" "w < w + 1"
  using word32_succ [OF assms] by (simp_all add: word_le_nat_alt word_less_nat_alt)

lemma insertMember_scopeMembers:
  assumes inv: "scopeMembers c this xs"
    and orphan: "parentScope (symbols c member) = None" "nextInScope (symbols c member) = None"
    and anchor: "case at of None \<Rightarrow> True | Some a \<Rightarrow> a \<in> set xs"
    and nowrap: "case at of None \<Rightarrow> True
                 | Some a \<Rightarrow> lastMember (scopes c this) = Some a \<longrightarrow> indexInScope (symbols c a) \<noteq> 4294967295"
  shows "\<exists>c'. insertMember c this member at = Inr c'
           \<and> scopeMembers c' this (insertAfter at member xs)"
proof -
  from inv have ch: "chain (symbols c) (firstMember (scopes c this)) xs"
    and lst: "lastMember (scopes c this) = (if xs = [] then None else Some (last xs))"
    and par: "list_all (\<lambda>x. parentScope (symbols c x) = Some this) xs"
    and one: "list_all (\<lambda>x. 1 \<le> indexInScope (symbols c x)) xs"
    and srt: "sorted (map (\<lambda>x. indexInScope (symbols c x)) xs)"
    by (auto simp: scopeMembers_def)
  from par orphan have fresh: "member \<notin> set xs" by (auto simp: list_all_iff)
  from ch have dist: "distinct xs" by (rule chain_distinct)
  from insertMember_returns [OF orphan] obtain c' where
    c': "insertMember c this member at = Inr c'" by blast
  note other = insertMember_other [OF c']
  note mem = insertMember_member [OF c']
  note sco = insertMember_scope [OF c']
  have ne: "\<And>x. x \<in> set xs \<Longrightarrow> x \<noteq> member" using fresh by auto
  have idx_eq: "map (\<lambda>x. indexInScope (symbols c' x)) xs = map (\<lambda>x. indexInScope (symbols c x)) xs"
    by (intro map_cong) (auto simp: other ne)
  have par': "list_all (\<lambda>x. parentScope (symbols c' x) = Some this) xs"
    using par by (auto simp: list_all_iff other ne)
  have one': "list_all (\<lambda>x. 1 \<le> indexInScope (symbols c' x)) xs"
    using one by (auto simp: list_all_iff other ne)
  have "scopeMembers c' this (insertAfter at member xs)"
  proof (cases at)
    case None
    have "chain (symbols c') (firstMember (scopes c this)) xs"
      using ch by (subst chain_cong_next [where h = "symbols c"]) (auto simp: other None ne)
    then have 1: "chain (symbols c') (firstMember (scopes c' this)) (member # xs)"
      using mem(3) sco(1) None by simp
    have nx: "nextInScope (symbols c' member) = firstMember (scopes c this)"
      using mem(3) None by simp
    have 2: "lastMember (scopes c' this) = Some (last (member # xs))"
      using sco(2) nx lst ch by (cases xs) auto
    have 3: "sorted (map (\<lambda>x. indexInScope (symbols c' x)) (member # xs))"
      using srt one mem(1) None by (simp add: idx_eq list_all_iff)
    show ?thesis using None 1 2 3 par' one' mem
      by (simp add: scopeMembers_def)
  next
    case (Some a)
    with anchor have a: "a \<in> set xs" by simp
    with fresh have am: "a \<noteq> member" by auto
    from a have xne: "xs \<noteq> []" by auto
    with lst have lst: "lastMember (scopes c this) = Some (last xs)" by simp
    have nxa: "nextInScope (symbols c' a) = Some member"
      using insertMember_anchor c' Some am by blast
    have nxm: "nextInScope (symbols c' member) = nextInScope (symbols c a)"
      using mem(3) Some am by auto
    have 1: "chain (symbols c') (firstMember (scopes c' this)) (insertAfter (Some a) member xs)"
      using ch a fresh nxa nxm sco(1) Some
      by (auto intro!: chain_insertAfter [where h = "symbols c"] simp: other)
    obtain as bs where xs: "xs = as @ a # bs" using a by (auto simp: in_set_conv_decomp)
    with ch have chb: "chain (symbols c) (nextInScope (symbols c a)) bs"
      by (auto dest: chain_suffix_at)
    have last_iff: "nextInScope (symbols c a) = None \<longleftrightarrow> last xs = a"
    proof
      assume "nextInScope (symbols c a) = None"
      with chb have "bs = []" by (cases bs) auto
      with xs show "last xs = a" by simp
    next
      assume "last xs = a"
      with xs dist have "bs = []" by (cases bs rule: rev_cases) auto
      with chb show "nextInScope (symbols c a) = None" by simp
    qed
    have 2: "lastMember (scopes c' this) = Some (last (insertAfter (Some a) member xs))"
      using sco(2) nxm lst a dist last_iff by (auto simp: last_insertAfter)
    have idxm: "indexInScope (symbols c' member) =
        (if last xs = a then indexInScope (symbols c a) + 1 else indexInScope (symbols c a))"
      using mem(1) Some lst a by auto
    have 3: "sorted (map (\<lambda>x. indexInScope (symbols c' x)) (insertAfter (Some a) member xs))"
    proof (cases "last xs = a")
      case True
      then have "indexInScope (symbols c a) \<noteq> 4294967295" using nowrap Some lst a by auto
      then have "indexInScope (symbols c a) \<le> indexInScope (symbols c a) + 1"
        by (rule word32_succ_le)
      then have "indexInScope (symbols c' a) \<le> indexInScope (symbols c' member)"
        using idxm True am by (simp add: other)
      then show ?thesis using True a dist srt
        by (intro sorted_insertAfter_last) (simp_all add: idx_eq)
    next
      case False
      then show ?thesis using a srt idxm am
        by (intro sorted_insertAfter_same) (simp_all add: idx_eq other)
    qed
    have 4: "1 \<le> indexInScope (symbols c' member)"
    proof (cases "last xs = a")
      case True
      then have ne: "indexInScope (symbols c a) \<noteq> 4294967295" using nowrap Some lst a by auto
      then have "1 \<le> indexInScope (symbols c a) + 1" by (rule word32_succ_le)
      then show ?thesis using idxm True by simp
    next
      case False
      then show ?thesis using idxm one a by (auto simp: list_all_iff)
    qed
    show ?thesis using Some 1 2 3 4 par' one' mem(2) a
      by (auto simp: scopeMembers_def list_all_iff set_insertAfter insertAfter_Nil_iff)
  qed
  with c' show ?thesis by blast
qed

subsection \<open>Net types\<close>

text \<open>
  C10: for every token kind \<open>t\<close>, \<open>getNetType\<close> on the table installed by the
  constructor returns a net type and never fails on the missing entry; when \<open>t\<close> is
  not one of the twelve registered net type keywords, the net type returned is the
  \<open>Unknown\<close> one, named \<open><error>\<close>.
\<close>

theorem getNetType_never_null:
  "\<exists>n. getNetType (knownNetTypes (newCompilation limit)) t = Inr n
     \<and> (t \<notin> {WireKeyword, WAndKeyword, WOrKeyword, TriKeyword, TriAndKeyword, TriOrKeyword,
              Tri0Keyword, Tri1Keyword, TriRegKeyword, Supply0Keyword, Supply1Keyword,
              UWireKeyword}
          \<longrightarrow> n = \<lparr>netKind = UnknownNet, netName = ''<error>'', dataType = 1\<rparr>)"
  by (cases t) (simp_all add: getNetType_def newCompilation_def knownNetTypes_init_def)

text \<open>The property at the tokens \<open>Star\<close>, \<open>OtherToken 7\<close> and \<open>TriRegKeyword\<close>.\<close>

theorem getNetType_never_null_witness:
  "getNetType (knownNetTypes (newCompilation 64)) Star
     = Inr \<lparr>netKind = UnknownNet, netName = ''<error>'', dataType = 1\<rparr>
   \<and> getNetType (knownNetTypes (newCompilation 64)) (OtherToken 7)
     = Inr \<lparr>netKind = UnknownNet, netName = ''<error>'', dataType = 1\<rparr>
   \<and> getNetType (knownNetTypes (newCompilation 64)) TriRegKeyword
     = Inr \<lparr>netKind = TriReg, netName = ''trireg'', dataType = 1\<rparr>"
  using getNetType_never_null [of 64 Star] getNetType_never_null [of 64 "OtherToken 7"]
  by (auto simp: getNetType_def newCompilation_def knownNetTypes_init_def)

subsection \<open>The error limit of the diagnostic visitor\<close>

text \<open>
  C8: for every node, \<open>handleDefault\<close> with the limit \<open>getSemanticDiagnostics\<close> builds
  the visitor with returns false and leaves the state as it is, so no lazy field is
  forced and no child visited, when the error count is strictly above the limit; when
  the count is at most the limit it returns true and ends with the default traversal
  of the children. The limit is \<open>UINT32_MAX\<close> when the \<open>errorLimit\<close> option is 0 and the
  option's value otherwise.
\<close>

theorem handleDefault_error_limit:
  "(unat (effectiveErrorLimit (errorLimit c)) < unat (numErrors c) \<longrightarrow>
      handleDefault force hasDeclaredType hasBody (effectiveErrorLimit (errorLimit c)) node c
        = (False, c))
   \<and> (unat (numErrors c) \<le> unat (effectiveErrorLimit (errorLimit c)) \<longrightarrow>
      (\<exists>c'. handleDefault force hasDeclaredType hasBody (effectiveErrorLimit (errorLimit c)) node c
        = (True, force (VisitDefault node) c')))
   \<and> (errorLimit c = 0 \<longrightarrow> unat (effectiveErrorLimit (errorLimit c)) = 2 ^ 32 - 1)
   \<and> (errorLimit c \<noteq> 0 \<longrightarrow> effectiveErrorLimit (errorLimit c) = errorLimit c)"
  by (auto simp add: handleDefault_def effectiveErrorLimit_def UINT32_MAX_def Let_def)


text \<open>
  The property with a limit of 2 at counts 3 and 2, and with no limit at a count of
  \<open>UINT32_MAX\<close>; forcing is made visible by letting every event add one error.
\<close>

theorem handleDefault_error_limit_witness:
  "handleDefault (\<lambda>e c. c\<lparr>numErrors := numErrors c + 1\<rparr>) (\<lambda>n. True) (\<lambda>n. True)
      (effectiveErrorLimit 2) (SymbolNode 0) ((newCompilation 2)\<lparr>numErrors := 3\<rparr>)
     = (False, (newCompilation 2)\<lparr>numErrors := 3\<rparr>)
   \<and> fst (handleDefault (\<lambda>e c. c\<lparr>numErrors := numErrors c + 1\<rparr>) (\<lambda>n. True) (\<lambda>n. True)
      (effectiveErrorLimit 2) (SymbolNode 0) ((newCompilation 2)\<lparr>numErrors := 2\<rparr>))
   \<and> numErrors (snd (handleDefault (\<lambda>e c. c\<lparr>numErrors := numErrors c + 1\<rparr>) (\<lambda>n. True) (\<lambda>n. True)
      (effectiveErrorLimit 2) (SymbolNode 0) ((newCompilation 2)\<lparr>numErrors := 2\<rparr>))) = 6
   \<and> fst (handleDefault (\<lambda>e c. c\<lparr>numErrors := numErrors c + 1\<rparr>) (\<lambda>n. True) (\<lambda>n. True)
      (effectiveErrorLimit 0) (SymbolNode 0) ((newCompilation 0)\<lparr>numErrors := 4294967295\<rparr>))
   \<and> unat (effectiveErrorLimit 0) = 4294967295 \<and> effectiveErrorLimit 2 = 2"
  using handleDefault_error_limit [of "(newCompilation 2)\<lparr>numErrors := 3\<rparr>"
          "\<lambda>e c. c\<lparr>numErrors := numErrors c + 1\<rparr>" "\<lambda>n. True" "\<lambda>n. True" "SymbolNode 0"]
        handleDefault_error_limit [of "(newCompilation 2)\<lparr>numErrors := 2\<rparr>"
          "\<lambda>e c. c\<lparr>numErrors := numErrors c + 1\<rparr>" "\<lambda>n. True" "\<lambda>n. True" "SymbolNode 0"]
        handleDefault_error_limit [of "(newCompilation 0)\<lparr>numErrors := 4294967295\<rparr>"
          "\<lambda>e c. c\<lparr>numErrors := numErrors c + 1\<rparr>" "\<lambda>n. True" "\<lambda>n. True" "SymbolNode 0"]
  by (simp add: handleDefault_def effectiveErrorLimit_def UINT32_MAX_def Let_def
      newCompilation_def newSymbol_def)

subsection \<open>Diagnostics from uninstantiated generate blocks\<close>

lemma isSuppressed_ancestor:
  assumes "ancestor h s a" "kind (h a) = GenerateBlock" "\<not> isInstantiated (h a)"
  shows "isSuppressed h (Some s) = Some True"
  using assms
proof (induction rule: ancestor.induct)
  case (self s)
  then show ?case by (subst isSuppressed.simps) simp
next
  case (up s p a)
  then have "isSuppressed h (Some p) = Some True" by simp
  then show ?case using up.hyps(1) by (subst isSuppressed.simps) simp
qed

text \<open>
  C7: for every diagnostic passed to \<open>addDiag\<close> whose symbol is, or has as an ancestor
  through parent scopes, a generate block that is not instantiated, \<open>addDiag\<close> returns
  a reference to the temporary diagnostic, which now holds the diagnostic, and changes
  nothing else: the diagnostic map and the error count are as before, and so is the
  list that \<open>getSemanticDiagnostics\<close> renders from the map, for any instance counts.
\<close>

theorem addDiag_suppressed:
  assumes "diagSymbol diag = Some s" "location diag \<noteq> NoLocation"
    and "ancestor (symbols c) s a"
    and "kind (symbols c a) = GenerateBlock" "\<not> isInstantiated (symbols c a)"
  shows "\<exists>c'. addDiag c diag = Some (Inr (TempDiag, c'))
           \<and> c' = c\<lparr>tempDiag := diag\<rparr>
           \<and> diagMap c' = diagMap c \<and> numErrors c' = numErrors c \<and> tempDiag c' = diag
           \<and> coalesceAll (symbols c') instanceCount (map snd (diagMap c')) []
               = coalesceAll (symbols c) instanceCount (map snd (diagMap c)) []"
  using assms isSuppressed_ancestor [of "symbols c" s a]
  by (simp add: addDiag_def)

text \<open>
  The property for an error reported at a variable (address 6) inside an uninstantiated
  generate block (address 5) below the root.
\<close>

theorem addDiag_suppressed_witness:
  "addDiag ((newCompilation 64)\<lparr>symbols := (symbols (newCompilation 64))
          (5 := (newSymbol GenerateBlock ''g'')\<lparr>parentScope := Some 0\<rparr>,
           6 := (newSymbol Variable ''v'')\<lparr>parentScope := Some 5\<rparr>)\<rparr>)
      \<lparr>code = 17, location = SourceLoc 1 40, diagSymbol = Some 6, coalesceCount = None,
       isError = True\<rparr>
   = Some (Inr (TempDiag, (newCompilation 64)\<lparr>symbols := (symbols (newCompilation 64))
          (5 := (newSymbol GenerateBlock ''g'')\<lparr>parentScope := Some 0\<rparr>,
           6 := (newSymbol Variable ''v'')\<lparr>parentScope := Some 5\<rparr>),
        tempDiag := \<lparr>code = 17, location = SourceLoc 1 40, diagSymbol = Some 6,
           coalesceCount = None, isError = True\<rparr>\<rparr>))"
proof -
  let ?h = "(symbols (newCompilation 64))
          (5 := (newSymbol GenerateBlock ''g'')\<lparr>parentScope := Some 0\<rparr>,
           6 := (newSymbol Variable ''v'')\<lparr>parentScope := Some 5\<rparr>)"
  let ?c = "(newCompilation 64)\<lparr>symbols := ?h\<rparr>"
  have "ancestor ?h 6 5"
  proof (rule ancestor.up)
    show "parentScope (?h 6) = Some 5" by (simp add: newSymbol_def)
    show "ancestor ?h 5 5" by (rule ancestor.self)
  qed
  then have anc: "ancestor (symbols ?c) 6 5" by simp
  show ?thesis
    using addDiag_suppressed [of "\<lparr>code = 17, location = SourceLoc 1 40, diagSymbol = Some 6,
        coalesceCount = None, isError = True\<rparr>" 6 ?c 5, OF _ _ anc]
    by (simp add: newSymbol_def)
qed

subsection \<open>Lookup in the scope itself\<close>

text \<open>
  A name that is in the name map is returned by the direct search exactly when its
  index is strictly below the index of the reference point, for the name kinds Local
  and Scoped; a Callable lookup returns it wherever the reference point lies. What is
  returned is the symbol itself unless it is an import or a transparent member, and a
  lookup returns what its direct search returns.
\<close>

lemma lookupLocal_declared_before_use:
  assumes "nameMap (scopes c this) n = Some s"
  shows "(nameKind r = Callable \<longrightarrow> lookupLocal c this n r \<noteq> None)
    \<and> (nameKind r \<noteq> Callable \<longrightarrow>
         (lookupLocal c this n r \<noteq> None)
           = (unat (indexInScope (symbols c s)) < unat (index (referencePoint r))))
    \<and> (lookupLocal c this n r \<noteq> None \<longrightarrow>
         kind (symbols c s) \<noteq> ExplicitImport \<longrightarrow> kind (symbols c s) \<noteq> TransparentMember \<longrightarrow>
         lookupLocal c this n r = Some (Inr (setSymbol r s False)))"
  using assms
  by (cases "nameKind r"; cases "kind (symbols c s)")
     (simp_all add: lookupLocal_def referencePointMatters_def refPointLess_def before_def
       word_less_nat_alt)

lemma lookup_returns_local:
  "lookupLocal (ensureMembers c this) this n r = Some x \<Longrightarrow>
   lookup ensureMembers c this n r = Some x"
  by (subst lookup.simps) simp

lemmas build_defs = emplace_def addMember_def insertMember_def addPackage_def trackImport_def
  newCompilation_def newSymbol_def map_emplace_def Let_def

lemma packageExample_symbols:
  "parentScope (symbols packageExample 2) = None"
  "kind (symbols packageExample 2) = Package"
  "nameMap (scopes packageExample 2) ''x'' = Some 3"
  "nameMap (scopes packageExample 2) ''y'' = Some 4"
  "indexInScope (symbols packageExample 3) = 1"
  "indexInScope (symbols packageExample 4) = 2"
  "importDataIndex (scopes packageExample 2) = None"
  "kind (symbols packageExample 3) = Parameter"
  "packageMap packageExample ''p'' = Some 2"
  by (simp_all add: packageExample_def build_defs)


text \<open>
  C1, at the package \<open>p\<close> of \<open>packageExample\<close>: looking up \<open>x\<close> from the point before \<open>y\<close>
  returns \<open>x\<close>. Looking up \<open>y\<close> from the point before \<open>x\<close>, or after it, does not end
  with the result kind NotFound: the direct search rejects \<open>y\<close>, the package has no
  imports and is not the root, and the climb dereferences the parent scope of the
  package, which is null.
\<close>

theorem lookup_package_example:
  "lookup (\<lambda>c s. c) packageExample 2 ''x''
      (clear\<lparr>referencePoint := before (symbols packageExample) 4\<rparr>)
     = Some (Inr (clear\<lparr>referencePoint := before (symbols packageExample) 4,
                         symbol := Some 3, resultKind := Found\<rparr>))
   \<and> lookup (\<lambda>c s. c) packageExample 2 ''y''
      (clear\<lparr>referencePoint := before (symbols packageExample) 3\<rparr>)
     = Some (Inl NullDereference)
   \<and> lookup (\<lambda>c s. c) packageExample 2 ''y''
      (clear\<lparr>referencePoint := after (symbols packageExample) 3\<rparr>)
     = Some (Inl NullDereference)"
  apply (intro conjI)
    apply (subst lookup.simps)
    apply (simp add: lookupLocal_def packageExample_symbols referencePointMatters_def clear_def
      before_def after_def refPointLess_def setSymbol_def)
   apply (subst lookup.simps)
   apply (simp add: lookupLocal_def packageExample_symbols referencePointMatters_def clear_def
      before_def after_def refPointLess_def setSymbol_def queryImports_def)
  apply (subst lookup.simps)
  apply (simp add: lookupLocal_def packageExample_symbols referencePointMatters_def clear_def
      before_def after_def refPointLess_def setSymbol_def queryImports_def)
  done


subsection \<open>Lookup at the root\<close>

text \<open>
  C6, at the root of a compilation with no packages: a Scoped lookup of a name that no
  package has dereferences the null pointer that \<open>getPackage\<close> returns. A Local lookup
  records nothing, and a Scoped lookup of the package \<open>p\<close> of \<open>packageExample\<close> records the
  package.
\<close>

theorem lookup_root_missing_package:
  "lookup (\<lambda>c s. c) (newCompilation 64) 0 ''nopkg'' (clear\<lparr>nameKind := Scoped\<rparr>)
     = Some (Inl NullDereference)
   \<and> lookup (\<lambda>c s. c) (newCompilation 64) 0 ''nopkg'' clear = Some (Inr clear)
   \<and> lookup (\<lambda>c s. c) packageExample 0 ''p'' (clear\<lparr>nameKind := Scoped\<rparr>)
     = Some (Inr (clear\<lparr>nameKind := Scoped, symbol := Some 2, resultKind := Found\<rparr>))"
  apply (intro conjI)
    apply (subst lookup.simps)
    apply (simp add: lookupLocal_def newCompilation_def newSymbol_def clear_def queryImports_def
      getPackage_def)
   apply (subst lookup.simps)
   apply (simp add: lookupLocal_def newCompilation_def newSymbol_def clear_def queryImports_def
      getPackage_def)
  apply (subst lookup.simps)
  apply (simp add: lookupLocal_def packageExample_def build_defs clear_def queryImports_def
      getPackage_def setSymbol_def)
  done

subsection \<open>Lookup in the wildcard imports\<close>

lemma referencePoint_addPotentialImport [simp]:
  "referencePoint (addPotentialImport r s) = referencePoint r"
  by (simp add: addPotentialImport_def Let_def)

lemma lookupDirect_realized:
  "ens c p = c \<Longrightarrow> snd (lookupDirect ens c p n) = c"
  by (simp add: lookupDirect_def Let_def split: option.split)

lemma importLoop_realized:
  assumes ens: "\<And>s. ens c s = c"
    and pk: "list_all (\<lambda>i. package (symbols c i) \<noteq> None) (consultedImports c r imps)"
  shows "\<exists>pairs. importLoop ens n imps c acc r
           = Inr (acc @ pairs,
                  foldl addPotentialImport r (importHits ens c n (consultedImports c r imps)), c)
          \<and> map snd pairs = importHits ens c n (consultedImports c r imps)"
  using pk
proof (induction imps arbitrary: acc r)
  case Nil
  then show ?case by (simp add: consultedImports_def importHits_def map_filter_simps)
next
  case (Cons i imps)
  show ?case
  proof (cases "refPointLess (referencePoint r) (after (symbols c) i)")
    case True
    then show ?thesis by (simp add: consultedImports_def importHits_def map_filter_simps)
  next
    case False
    with Cons.prems obtain p where p: "package (symbols c i) = Some p"
      by (auto simp: consultedImports_def)
    obtain res c1 where ld: "lookupDirect ens c p n = (res, c1)" by (cases "lookupDirect ens c p n")
    with lookupDirect_realized [of ens c p n] ens have c1: "c1 = c" by simp
    show ?thesis
    proof (cases res)
      case None
      have "list_all (\<lambda>i. package (symbols c i) \<noteq> None) (consultedImports c r imps)"
        using Cons.prems False by (simp add: consultedImports_def)
      from Cons.IH [OF this, of acc] show ?thesis
        using False p ld c1 None
        by (simp add: consultedImports_def importHits_def map_filter_simps)
    next
      case (Some s)
      have eq: "consultedImports c (addPotentialImport r s) imps = consultedImports c r imps"
        by (simp add: consultedImports_def)
      have "list_all (\<lambda>i. package (symbols c i) \<noteq> None) (consultedImports c (addPotentialImport r s) imps)"
        using Cons.prems False by (simp add: consultedImports_def)
      from Cons.IH [OF this, of "acc @ [(i, s)]"] show ?thesis
        using False p ld c1 Some eq
        by (auto simp: consultedImports_def importHits_def map_filter_simps)
    qed
  qed
qed

lemma foldl_addPotentialImport:
  "potentialImports r = [] \<Longrightarrow>
   foldl addPotentialImport r hs =
     (if hs = [] then r
      else if length hs = 1 then r\<lparr>potentialImports := hs\<rparr>
      else r\<lparr>resultKind := AmbiguousImport, potentialImports := hs\<rparr>)"
proof (induction hs rule: rev_induct)
  case Nil
  then show ?case by simp
next
  case (snoc h hs)
  then show ?case
    by (cases hs) (auto simp: addPotentialImport_def Let_def)
qed


lemma consultedImports_before:
  assumes "list_all (\<lambda>i. indexInScope (symbols c i) \<noteq> UINT32_MAX) imps"
  shows "list_all (\<lambda>i. indexInScope (symbols c i) < index (referencePoint r))
           (consultedImports c r imps)"
proof -
  have "indexInScope (symbols c i) < index (referencePoint r)"
    if "i \<in> set (consultedImports c r imps)" for i
  proof -
    from that have "i \<in> set imps" and "\<not> refPointLess (referencePoint r) (after (symbols c) i)"
      by (auto simp: consultedImports_def dest: set_takeWhileD)
    with assms have ne: "indexInScope (symbols c i) \<noteq> 4294967295"
      and le: "indexInScope (symbols c i) + 1 \<le> index (referencePoint r)"
      by (auto simp: list_all_iff UINT32_MAX_def refPointLess_def after_def)
    from word32_succ_le(3) [OF ne] le show ?thesis by simp
  qed
  then show ?thesis by (simp add: list_all_iff)
qed

text \<open>
  The loop when it meets no missing package. For a lookup that falls through the
  direct search of a scope whose members are realized, with every consulted import
  resolved to a package, a fresh list of potential imports and no import at index
  \<open>UINT32_MAX\<close>: the imports consulted are a prefix of the scope's imports in
  declaration order, each with an index strictly below the reference point. When
  exactly one of their packages holds the name, that symbol is the result, flagged as
  imported; when two or more do, the result kind is AmbiguousImport, the symbol is
  left as it was, the hits are the potential imports and the lookup returns without
  climbing; when none does, the lookup goes on with the root rule or the parent.
\<close>

lemma lookup_imports_resolved:
  assumes realized: "\<And>s. ensureMembers c s = c"
    and fall: "lookupLocal c this n r = None"
    and imps: "queryImports c (importDataIndex (scopes c this)) = Inr imps"
    and pk: "list_all (\<lambda>i. package (symbols c i) \<noteq> None) (consultedImports c r imps)"
    and fresh: "potentialImports r = []"
    and nowrap: "list_all (\<lambda>i. indexInScope (symbols c i) \<noteq> UINT32_MAX) imps"
  shows "(\<exists>rest. imps = consultedImports c r imps @ rest)
    \<and> list_all (\<lambda>i. indexInScope (symbols c i) < index (referencePoint r))
         (consultedImports c r imps)
    \<and> (\<forall>s. importHits ensureMembers c n (consultedImports c r imps) = [s] \<longrightarrow>
         lookup ensureMembers c this n r
           = Some (Inr (r\<lparr>symbol := Some s, resultWasImported := True, resultKind := Found,
                           potentialImports := [s]\<rparr>)))
    \<and> (2 \<le> length (importHits ensureMembers c n (consultedImports c r imps)) \<longrightarrow>
         lookup ensureMembers c this n r
           = Some (Inr (r\<lparr>resultKind := AmbiguousImport,
                 potentialImports := importHits ensureMembers c n (consultedImports c r imps)\<rparr>)))
    \<and> (importHits ensureMembers c n (consultedImports c r imps) = [] \<longrightarrow>
         lookup ensureMembers c this n r
           = (if kind (symbols c this) = Root
              then (if nameKind r = Scoped
                    then (case getPackage c n of
                            None \<Rightarrow> Some (Inl NullDereference)
                          | Some p \<Rightarrow> Some (Inr (setSymbol r p False)))
                    else Some (Inr r))
              else (case parentScope (symbols c this) of
                      None \<Rightarrow> Some (Inl NullDereference)
                    | Some parent \<Rightarrow>
                        lookup ensureMembers c parent n
                          (r\<lparr>referencePoint := after (symbols c) this\<rparr>))))"
proof -
  let ?hits = "importHits ensureMembers c n (consultedImports c r imps)"
  from importLoop_realized [where ens = ensureMembers and c = c and r = r and imps = imps
      and n = n and acc = "[]"] realized pk obtain pairs where
    loop: "importLoop ensureMembers n imps c [] r = Inr (pairs, foldl addPotentialImport r ?hits, c)"
    and pairs: "map snd pairs = ?hits" by auto
  have unfold: "lookup ensureMembers c this n r =
      (if pairs \<noteq> []
       then Some (Inr (if length pairs = 1
                       then setSymbol (foldl addPotentialImport r ?hits) (snd (pairs ! 0)) True
                       else foldl addPotentialImport r ?hits))
       else if kind (symbols c this) = Root
       then (if nameKind (foldl addPotentialImport r ?hits) = Scoped
             then (case getPackage c n of
                     None \<Rightarrow> Some (Inl NullDereference)
                   | Some p \<Rightarrow> Some (Inr (setSymbol (foldl addPotentialImport r ?hits) p False)))
             else Some (Inr (foldl addPotentialImport r ?hits)))
       else (case parentScope (symbols c this) of
               None \<Rightarrow> Some (Inl NullDereference)
             | Some parent \<Rightarrow>
                 lookup ensureMembers c parent n
                   ((foldl addPotentialImport r ?hits)\<lparr>referencePoint := after (symbols c) this\<rparr>)))"
    by (subst lookup.simps) (simp add: realized fall imps loop)
  have len: "length pairs = length ?hits" using pairs by (metis length_map)
  have 1: "\<exists>rest. imps = consultedImports c r imps @ rest"
    unfolding consultedImports_def by (metis takeWhile_dropWhile_id)
  have 2: "list_all (\<lambda>i. indexInScope (symbols c i) < index (referencePoint r))
         (consultedImports c r imps)"
    using nowrap by (rule consultedImports_before)
  have 3: "lookup ensureMembers c this n r
           = Some (Inr (r\<lparr>symbol := Some s, resultWasImported := True, resultKind := Found,
                           potentialImports := [s]\<rparr>))" if h: "?hits = [s]" for s
  proof -
    from h pairs obtain i where "pairs = [(i, s)]" by (cases pairs) auto
    then show ?thesis using h unfold
      by (simp add: addPotentialImport_def fresh setSymbol_def)
  qed
  have 4: "lookup ensureMembers c this n r
           = Some (Inr (r\<lparr>resultKind := AmbiguousImport, potentialImports := ?hits\<rparr>))"
    if h: "2 \<le> length ?hits"
  proof -
    from h len have "pairs \<noteq> []" "length pairs \<noteq> 1" "?hits \<noteq> []" "length ?hits \<noteq> 1" by auto
    then show ?thesis using unfold by (simp add: foldl_addPotentialImport [OF fresh])
  qed
  have 5: "lookup ensureMembers c this n r
           = (if kind (symbols c this) = Root
              then (if nameKind r = Scoped
                    then (case getPackage c n of
                            None \<Rightarrow> Some (Inl NullDereference)
                          | Some p \<Rightarrow> Some (Inr (setSymbol r p False)))
                    else Some (Inr r))
              else (case parentScope (symbols c this) of
                      None \<Rightarrow> Some (Inl NullDereference)
                    | Some parent \<Rightarrow>
                        lookup ensureMembers c parent n
                          (r\<lparr>referencePoint := after (symbols c) this\<rparr>)))"
    if h: "?hits = []"
  proof -
    from h pairs have p: "pairs = []" by simp
    show ?thesis using unfold unfolding h p foldl.simps by simp
  qed
  from 1 2 3 4 5 show ?thesis by blast
qed


lemma importExample_facts:
  "nameMap (scopes importExample 6) = Map.empty"
  "importDataIndex (scopes importExample 6) = Some 0"
  "importData importExample = [[7, 8]]"
  "package (symbols importExample 7) = Some 2"
  "package (symbols importExample 8) = Some 4"
  "indexInScope (symbols importExample 7) = 1"
  "indexInScope (symbols importExample 8) = 2"
  "nameMap (scopes importExample 2) ''foo'' = Some 3"
  "nameMap (scopes importExample 4) ''foo'' = Some 5"
  "nameMap (scopes importExample 2) ''bar'' = None"
  "nameMap (scopes importExample 4) ''bar'' = None"
  "kind (symbols importExample 3) = Variable"
  "kind (symbols importExample 5) = Variable"
  "kind (symbols importExample 6) = CompilationUnit"
  "parentScope (symbols importExample 6) = Some 0"
  "indexInScope (symbols importExample 6) = 1"
  "kind (symbols importExample 0) = Root"
  "nameMap (scopes importExample 0) = Map.empty"
  "importDataIndex (scopes importExample 0) = None"
  by (simp_all add: importExample_def importExampleSymbols_def build_defs)

text \<open>
  In \<open>importExample\<close>, where both imports resolve: \<open>foo\<close> from the end of the compilation unit is
  ambiguous with two candidates, \<open>foo\<close> from just after the first import is the \<open>foo\<close>
  of \<open>p\<close>, and \<open>bar\<close> is in neither package, so the lookup climbs to the root.
\<close>

lemma lookup_imports_resolved_example:
  "lookup (\<lambda>c s. c) importExample 6 ''foo'' clear
     = Some (Inr (clear\<lparr>resultKind := AmbiguousImport, potentialImports := [3, 5]\<rparr>))
   \<and> lookup (\<lambda>c s. c) importExample 6 ''foo''
        (clear\<lparr>referencePoint := after (symbols importExample) 7\<rparr>)
     = Some (Inr (clear\<lparr>referencePoint := after (symbols importExample) 7, symbol := Some 3,
                    resultWasImported := True, resultKind := Found, potentialImports := [3]\<rparr>))
   \<and> lookup (\<lambda>c s. c) importExample 6 ''bar'' clear
     = Some (Inr (clear\<lparr>referencePoint := after (symbols importExample) 6\<rparr>))"
proof -
  note ev = importExample_facts lookupLocal_def queryImports_def consultedImports_def
    importHits_def lookupDirect_def refPointLess_def after_def clear_def LookupRefPoint_max_def
    UINT32_MAX_def map_filter_simps getPackage_def
  have root: "lookup (\<lambda>c s. c) importExample 0 ''bar''
      (clear\<lparr>referencePoint := after (symbols importExample) 6\<rparr>)
     = Some (Inr (clear\<lparr>referencePoint := after (symbols importExample) 6\<rparr>))"
    by (subst lookup.simps) (simp add: ev)
  have a: "lookup (\<lambda>c s. c) importExample 6 ''foo'' clear
     = Some (Inr (clear\<lparr>resultKind := AmbiguousImport, potentialImports := [3, 5]\<rparr>))"
    using lookup_imports_resolved [of "\<lambda>c s. c" importExample 6 "''foo''" clear "[7, 8]"]
    by (simp add: ev)
  have b: "lookup (\<lambda>c s. c) importExample 6 ''foo''
        (clear\<lparr>referencePoint := after (symbols importExample) 7\<rparr>)
     = Some (Inr (clear\<lparr>referencePoint := after (symbols importExample) 7, symbol := Some 3,
                    resultWasImported := True, resultKind := Found, potentialImports := [3]\<rparr>))"
    using lookup_imports_resolved [of "\<lambda>c s. c" importExample 6 "''foo''"
        "clear\<lparr>referencePoint := after (symbols importExample) 7\<rparr>" "[7, 8]"]
    by (simp add: ev)
  have c: "lookup (\<lambda>c s. c) importExample 6 ''bar'' clear
     = Some (Inr (clear\<lparr>referencePoint := after (symbols importExample) 6\<rparr>))"
    using lookup_imports_resolved [of "\<lambda>c s. c" importExample 6 "''bar''" clear "[7, 8]"] root
    by (simp add: ev)
  from a b c show ?thesis by blast
qed

lemma missingPackageExample_facts:
  "nameMap (scopes missingPackageExample 4) = Map.empty"
  "importDataIndex (scopes missingPackageExample 4) = Some 0"
  "importData missingPackageExample = [[5, 6]]"
  "package (symbols missingPackageExample 5) = Some 2"
  "package (symbols missingPackageExample 6) = None"
  "indexInScope (symbols missingPackageExample 5) = 1"
  "indexInScope (symbols missingPackageExample 6) = 2"
  "nameMap (scopes missingPackageExample 2) ''foo'' = Some 3"
  "nameMap (scopes missingPackageExample 2) ''bar'' = None"
  "kind (symbols missingPackageExample 4) = CompilationUnit"
  "parentScope (symbols missingPackageExample 4) = Some 0"
  "kind (symbols missingPackageExample 3) = Variable"
  "parentScope (symbols missingPackageExample 5) = Some 4"
  by (simp_all add: missingPackageExample_def missingPackageExampleSymbols_def build_defs)

text \<open>
  C3, at the compilation unit of \<open>missingPackageExample\<close>, which imports \<open>p::*\<close> and
  then \<open>nosuch::*\<close>, from the end of the unit, so that both imports lie strictly
  before the reference point and are consulted. Exactly one consulted import's package
  holds \<open>foo\<close>, but the lookup of \<open>foo\<close> does not return that symbol flagged as
  imported: the loop dereferences the null package of the second import. No consulted
  package holds \<open>bar\<close>, but the lookup of \<open>bar\<close> does not go on to the parent scope: it
  ends in the same dereference. From just after the first import, the second import is
  not consulted and \<open>foo\<close> is the \<open>foo\<close> of \<open>p\<close>, flagged as imported.
\<close>

theorem lookup_import_missing_package:
  "lookup (\<lambda>c s. c) missingPackageExample 4 ''foo'' clear = Some (Inl NullDereference)
   \<and> lookup (\<lambda>c s. c) missingPackageExample 4 ''bar'' clear = Some (Inl NullDereference)
   \<and> lookup (\<lambda>c s. c) missingPackageExample 4 ''foo''
        (clear\<lparr>referencePoint := after (symbols missingPackageExample) 5\<rparr>)
     = Some (Inr (clear\<lparr>referencePoint := \<lparr>scope = Some 4, index = 2\<rparr>,
                    symbol := Some 3, resultWasImported := True, resultKind := Found,
                    potentialImports := [3]\<rparr>))"
  apply (intro conjI)
    apply (subst lookup.simps)
    apply (simp add: missingPackageExample_facts lookupLocal_def queryImports_def
      lookupDirect_def refPointLess_def after_def clear_def LookupRefPoint_max_def
      UINT32_MAX_def addPotentialImport_def setSymbol_def)
   apply (subst lookup.simps)
   apply (simp add: missingPackageExample_facts lookupLocal_def queryImports_def
      lookupDirect_def refPointLess_def after_def clear_def LookupRefPoint_max_def
      UINT32_MAX_def addPotentialImport_def setSymbol_def)
  apply (subst lookup.simps)
  apply (simp add: missingPackageExample_facts lookupLocal_def queryImports_def
      lookupDirect_def refPointLess_def after_def clear_def LookupRefPoint_max_def
      UINT32_MAX_def addPotentialImport_def setSymbol_def)
  done

subsection \<open>Indices along the sibling chain\<close>

lemmas realize_defs = realizeDeferredMembers_def registerTransparentType_def
  getOrAddDeferredData_def

text \<open>
  What one \<open>insertMember\<close> does to a scope whose members are \<open>xs\<close>, when the member is an
  orphan, the anchor is null or a member, and the index of a tail anchor is below
  \<open>UINT32_MAX\<close>.
\<close>

lemma insertMember_effect:
  assumes inv: "scopeMembers c this xs"
    and orphan: "parentScope (symbols c member) = None" "nextInScope (symbols c member) = None"
    and anchor: "case at of None \<Rightarrow> True | Some a \<Rightarrow> a \<in> set xs"
    and nowrap: "case at of None \<Rightarrow> True
                 | Some a \<Rightarrow> lastMember (scopes c this) = Some a \<longrightarrow>
                     indexInScope (symbols c a) \<noteq> 4294967295"
  shows "\<exists>c'. insertMember c this member at = Inr c'
      \<and> scopeMembers c' this (insertAfter at member xs)
      \<and> sorted (map (\<lambda>x. indexInScope (symbols c' x)) (insertAfter at member xs))
      \<and> (\<forall>x. x \<noteq> member \<longrightarrow> indexInScope (symbols c' x) = indexInScope (symbols c x))
      \<and> (\<forall>x rp. x \<noteq> member \<longrightarrow>
            refPointLess (before (symbols c') x) rp = refPointLess (before (symbols c) x) rp)
      \<and> (at = None \<longrightarrow>
            indexInScope (symbols c' member) = 1 \<and> firstMember (scopes c' this) = Some member)
      \<and> (\<forall>a. at = Some a \<longrightarrow>
            ((indexInScope (symbols c' member) = indexInScope (symbols c a) + 1)
               = (lastMember (scopes c this) = Some a))
            \<and> (lastMember (scopes c this) \<noteq> Some a \<longrightarrow>
                 indexInScope (symbols c' member) = indexInScope (symbols c a))
            \<and> (lastMember (scopes c this) = Some a \<longrightarrow>
                 indexInScope (symbols c a) < indexInScope (symbols c' member)))"
proof -
  from insertMember_scopeMembers [OF inv orphan anchor nowrap] obtain c' where
    c': "insertMember c this member at = Inr c'"
    and inv': "scopeMembers c' this (insertAfter at member xs)" by blast
  note other = insertMember_other [OF c']
  note mem = insertMember_member [OF c']
  note sco = insertMember_scope [OF c']
  have 1: "sorted (map (\<lambda>x. indexInScope (symbols c' x)) (insertAfter at member xs))"
    using inv' by (simp add: scopeMembers_def)
  have 2: "\<forall>x. x \<noteq> member \<longrightarrow> indexInScope (symbols c' x) = indexInScope (symbols c x)"
    by (simp add: other)
  have 3: "\<forall>x rp. x \<noteq> member \<longrightarrow>
            refPointLess (before (symbols c') x) rp = refPointLess (before (symbols c) x) rp"
    by (simp add: other refPointLess_def before_def)
  have 4: "at = None \<longrightarrow>
            indexInScope (symbols c' member) = 1 \<and> firstMember (scopes c' this) = Some member"
    using mem(1) sco(1) by simp
  have 5: "((indexInScope (symbols c' member) = indexInScope (symbols c a) + 1)
               = (lastMember (scopes c this) = Some a))
            \<and> (lastMember (scopes c this) \<noteq> Some a \<longrightarrow>
                 indexInScope (symbols c' member) = indexInScope (symbols c a))
            \<and> (lastMember (scopes c this) = Some a \<longrightarrow>
                 indexInScope (symbols c a) < indexInScope (symbols c' member))"
    if at: "at = Some a" for a
  proof (cases "lastMember (scopes c this) = Some a")
    case True
    with nowrap at have "indexInScope (symbols c a) \<noteq> 4294967295" by simp
    then have "indexInScope (symbols c a) < indexInScope (symbols c a) + 1"
      by (rule word32_succ_le)
    then show ?thesis using True mem(1) at by simp
  next
    case False
    then show ?thesis using mem(1) at by simp
  qed
  from c' inv' 1 2 3 4 5 show ?thesis by blast
qed


text \<open>
  The loop of \<open>realizeDeferredMembers\<close> over the values of one enum type: the wrappers
  are spliced in one after the other, the scope stays well-formed, and every symbol
  that was there before keeps its index.
\<close>

lemma insertMember_nextFree:
  "insertMember c this member at = Inr c' \<Longrightarrow> nextFree c' = nextFree c"
  by (auto simp: insertMember_def Let_def split: option.splits if_splits)

lemma scopeMembers_emplace:
  assumes "scopeMembers c this xs" "\<forall>x\<in>set xs. x < nextFree c"
  shows "scopeMembers (snd (emplace c s)) this xs"
proof -
  define h where "h = (symbols c)(nextFree c := s)"
  have same: "\<And>x. x \<in> set xs \<Longrightarrow> h x = symbols c x" using assms(2) by (auto simp: h_def)
  have 1: "chain h (firstMember (scopes c this)) xs = chain (symbols c) (firstMember (scopes c this)) xs"
    by (intro chain_cong_next) (simp add: same)
  have 2: "map (\<lambda>x. indexInScope (h x)) xs = map (\<lambda>x. indexInScope (symbols c x)) xs"
    by (intro map_cong) (simp_all add: same)
  have 3: "list_all (\<lambda>x. parentScope (h x) = Some this) xs"
    "list_all (\<lambda>x. 1 \<le> indexInScope (h x)) xs"
    using assms(1) by (simp_all add: scopeMembers_def list_all_iff same)
  have 4: "sorted (map (\<lambda>x. indexInScope (h x)) xs)"
    unfolding 2 using assms(1) by (simp add: scopeMembers_def)
  have "symbols (snd (emplace c s)) = h" "scopes (snd (emplace c s)) = scopes c"
    by (simp_all add: emplace_def h_def)
  then show ?thesis using assms(1) 1 3 4 by (simp add: scopeMembers_def)
qed

lemma spliceValues_keeps_indices:
  assumes "scopeMembers c this xs"
    and "\<forall>x\<in>set xs. x < nextFree c"
    and "case at of None \<Rightarrow> True | Some a \<Rightarrow> a \<in> set xs"
    and "length vs < 2 ^ 32 - 1"
    and "\<forall>x\<in>set xs. unat (indexInScope (symbols c x)) + length vs < 2 ^ 32 - 1"
  shows "\<exists>c' ys. spliceValues c this vs at = Inr c' \<and> scopeMembers c' this ys
           \<and> set xs \<subseteq> set ys \<and> length ys = length xs + length vs
           \<and> (\<forall>x. x < nextFree c \<longrightarrow> indexInScope (symbols c' x) = indexInScope (symbols c x))"
  using assms
proof (induction vs arbitrary: c xs at)
  case Nil
  then show ?case by auto
next
  case (Cons v vs)
  let ?s = "(newSymbol TransparentMember (name (symbols c v)))\<lparr>wrapped := v\<rparr>"
  let ?w = "nextFree c"
  define c1 where "c1 = snd (emplace c ?s)"
  have em: "emplace c ?s = (?w, c1)" by (simp add: c1_def emplace_def)
  have inv1: "scopeMembers c1 this xs"
    unfolding c1_def using Cons.prems(1,2) by (rule scopeMembers_emplace)
  have old1: "\<And>x. x < ?w \<Longrightarrow> symbols c1 x = symbols c x"
    by (simp add: c1_def emplace_def)
  have orphan: "parentScope (symbols c1 ?w) = None" "nextInScope (symbols c1 ?w) = None"
    by (simp_all add: c1_def emplace_def newSymbol_def)
  have sc1: "scopes c1 = scopes c" "nextFree c1 = Suc ?w" by (simp_all add: c1_def emplace_def)
  have nowrap: "case at of None \<Rightarrow> True
     | Some a \<Rightarrow> lastMember (scopes c1 this) = Some a \<longrightarrow>
         indexInScope (symbols c1 a) \<noteq> 4294967295"
  proof (cases at)
    case None
    then show ?thesis by simp
  next
    case (Some a)
    with Cons.prems(3) have a: "a \<in> set xs" by simp
    with Cons.prems(2,5) have "a < ?w" "unat (indexInScope (symbols c a)) < 2 ^ 32 - 1" by auto
    then have "indexInScope (symbols c1 a) \<noteq> 4294967295"
      by (auto simp: old1)
    with Some show ?thesis by simp
  qed
  from insertMember_effect [OF inv1 orphan Cons.prems(3) nowrap] obtain c2 where
    c2: "insertMember c1 this ?w at = Inr c2"
    and inv2: "scopeMembers c2 this (insertAfter at ?w xs)"
    and keep: "\<forall>x. x \<noteq> ?w \<longrightarrow> indexInScope (symbols c2 x) = indexInScope (symbols c1 x)"
    and head: "at = None \<longrightarrow> indexInScope (symbols c2 ?w) = 1"
    and anch: "\<forall>a. at = Some a \<longrightarrow>
         (lastMember (scopes c1 this) \<noteq> Some a \<longrightarrow>
              indexInScope (symbols c2 ?w) = indexInScope (symbols c1 a))
         \<and> ((indexInScope (symbols c2 ?w) = indexInScope (symbols c1 a) + 1)
               = (lastMember (scopes c1 this) = Some a))"
    by blast
  let ?ys = "insertAfter at ?w xs"
  have setys: "set ?ys = insert ?w (set xs)"
    using Cons.prems(3) by (cases at) (auto simp: set_insertAfter)
  have lenys: "length ?ys = Suc (length xs)"
  proof (cases at)
    case None
    then show ?thesis by simp
  next
    case (Some a)
    have "a \<in> set zs \<Longrightarrow> length (insertAfter (Some a) m zs) = Suc (length zs)" for m zs
      by (induction zs) auto
    with Some Cons.prems(3) show ?thesis by simp
  qed
  have nf2: "nextFree c2 = Suc ?w" using insertMember_nextFree [OF c2] sc1 by simp
  have p2: "\<forall>x\<in>set ?ys. x < nextFree c2" using Cons.prems(2) setys nf2 by auto
  have p3: "case Some ?w of None \<Rightarrow> True | Some a \<Rightarrow> a \<in> set ?ys" using setys by simp
  have p4: "length vs < 2 ^ 32 - 1" using Cons.prems(4) by simp
  have widx: "unat (indexInScope (symbols c2 ?w)) + length vs < 2 ^ 32 - 1"
  proof (cases at)
    case None
    with head Cons.prems(4) show ?thesis by simp
  next
    case (Some a)
    with Cons.prems(3) have a: "a \<in> set xs" by simp
    with Cons.prems(2,5) have alt: "a < ?w"
      and ab: "unat (indexInScope (symbols c a)) + Suc (length vs) < 2 ^ 32 - 1" by auto
    then have ne: "indexInScope (symbols c a) \<noteq> 4294967295" by auto
    show ?thesis
    proof (cases "lastMember (scopes c1 this) = Some a")
      case True
      with anch Some have "indexInScope (symbols c2 ?w) = indexInScope (symbols c a) + 1"
        using alt by (simp add: old1)
      with word32_succ [OF ne] ab show ?thesis by simp
    next
      case False
      with anch Some have "indexInScope (symbols c2 ?w) = indexInScope (symbols c a)"
        using alt by (simp add: old1)
      with ab show ?thesis by simp
    qed
  qed
  have p5: "\<forall>x\<in>set ?ys. unat (indexInScope (symbols c2 x)) + length vs < 2 ^ 32 - 1"
  proof
    fix x assume "x \<in> set ?ys"
    with setys consider "x = ?w" | "x \<in> set xs" "x \<noteq> ?w" using Cons.prems(2) by auto
    then show "unat (indexInScope (symbols c2 x)) + length vs < 2 ^ 32 - 1"
    proof cases
      case 1
      with widx show ?thesis by simp
    next
      case 2
      with Cons.prems(2) have "x < ?w" by auto
      with 2 keep have "indexInScope (symbols c2 x) = indexInScope (symbols c x)"
        by (simp add: old1)
      with Cons.prems(5) 2 show ?thesis by auto
    qed
  qed
  from Cons.IH [OF inv2 p2 p3 p4 p5] obtain c' ys where
    r: "spliceValues c2 this vs (Some ?w) = Inr c'" "scopeMembers c' this ys"
       "set ?ys \<subseteq> set ys" "length ys = length ?ys + length vs"
       "\<forall>x. x < nextFree c2 \<longrightarrow> indexInScope (symbols c' x) = indexInScope (symbols c2 x)"
    by blast
  have "spliceValues c this (v # vs) at = Inr c'"
    using em c2 r(1) by simp
  moreover have "set xs \<subseteq> set ys" using r(3) setys by auto
  moreover have "length ys = length xs + length (v # vs)" using r(4) lenys by simp
  moreover have "\<forall>x. x < nextFree c \<longrightarrow> indexInScope (symbols c' x) = indexInScope (symbols c x)"
    using r(5) nf2 keep by (auto simp: old1)
  ultimately show ?case using r(2) by blast
qed

text \<open>
  C5, as the claim states it, fails: the index does not always increase strictly up to
  a member that was appended at the tail. In \<open>enumExampleSymbols\<close> the variable \<open>v\<close>
  (address 5) is appended by \<open>addMember\<close> as the first and last member and gets index 1;
  \<open>realizeDeferredMembers\<close> then puts the wrappers of \<open>A\<close> and \<open>B\<close> (addresses 7 and 8)
  before it, at the null anchor and behind the first wrapper, with index 1 each. The
  chain is 7, 8, 5 and the index does not increase from 8 to 5.
\<close>

theorem insertMember_strict_counterexample:
  "\<exists>c1 c2. addMember enumExampleSymbols 2 5 = Inr c1
     \<and> firstMember (scopes c1 2) = Some 5 \<and> lastMember (scopes c1 2) = Some 5
     \<and> realizeDeferredMembers c1 2 = Inr c2
     \<and> chain (symbols c2) (firstMember (scopes c2 2)) [7, 8, 5]
     \<and> kind (symbols c2 7) = TransparentMember \<and> kind (symbols c2 8) = TransparentMember
     \<and> indexInScope (symbols c2 7) = 1 \<and> indexInScope (symbols c2 8) = 1
     \<and> indexInScope (symbols c2 5) = 1
     \<and> \<not> indexInScope (symbols c2 8) < indexInScope (symbols c2 5)"
  by (simp add: enumExampleSymbols_def build_defs realize_defs)


text \<open>
  C5, amended: in a well-formed scope whose tail index is below \<open>UINT32_MAX\<close>,
  \<open>insertMember\<close> of an orphan returns a scope that is well-formed again, so the
  indices along the chain start at 1 or above and never decrease. It changes the index of no other
  symbol, so the declared-before-use comparison of every other symbol against any
  reference point is what it was. With a null anchor the member gets index 1 and is
  the new head. After an anchor \<open>a\<close> the member gets the index of \<open>a\<close> plus 1 exactly
  when \<open>a\<close> is the last member, and then its index is strictly above that of \<open>a\<close>;
  otherwise it gets the index of \<open>a\<close>.
\<close>

theorem insertMember_index_order:
  assumes inv: "scopeMembers c this xs"
    and orphan: "parentScope (symbols c member) = None" "nextInScope (symbols c member) = None"
    and anchor: "case at of None \<Rightarrow> True | Some a \<Rightarrow> a \<in> set xs"
    and nowrap: "case at of None \<Rightarrow> True
                 | Some a \<Rightarrow> lastMember (scopes c this) = Some a \<longrightarrow>
                     indexInScope (symbols c a) \<noteq> 4294967295"
  shows "\<exists>c'. insertMember c this member at = Inr c'
      \<and> scopeMembers c' this (insertAfter at member xs)
      \<and> sorted (map (\<lambda>x. indexInScope (symbols c' x)) (insertAfter at member xs))
      \<and> (\<forall>x. x \<noteq> member \<longrightarrow> indexInScope (symbols c' x) = indexInScope (symbols c x))
      \<and> (\<forall>x rp. x \<noteq> member \<longrightarrow>
            refPointLess (before (symbols c') x) rp = refPointLess (before (symbols c) x) rp)
      \<and> (at = None \<longrightarrow>
            indexInScope (symbols c' member) = 1 \<and> firstMember (scopes c' this) = Some member)
      \<and> (\<forall>a. at = Some a \<longrightarrow>
            ((indexInScope (symbols c' member) = indexInScope (symbols c a) + 1)
               = (lastMember (scopes c this) = Some a))
            \<and> (lastMember (scopes c this) \<noteq> Some a \<longrightarrow>
                 indexInScope (symbols c' member) = indexInScope (symbols c a))
            \<and> (lastMember (scopes c this) = Some a \<longrightarrow>
                 indexInScope (symbols c a) < indexInScope (symbols c' member)))"
  using insertMember_effect [OF assms] .

text \<open>
  The property at the package of \<open>packageExample\<close>, whose members \<open>x\<close> and \<open>y\<close> have the
  indices 1 and 2, for an orphan symbol (address 9) inserted after \<open>x\<close>, after \<open>y\<close> and
  at the head.
\<close>

lemma packageExample_members: "scopeMembers packageExample 2 [3, 4]"
  by (simp add: scopeMembers_def packageExample_def build_defs)

theorem insertMember_index_order_witness:
  "(\<exists>c'. insertMember packageExample 2 9 (Some 3) = Inr c'
      \<and> scopeMembers c' 2 [3, 9, 4]
      \<and> map (\<lambda>x. indexInScope (symbols c' x)) [3, 9, 4] = [1, 1, 2])
   \<and> (\<exists>c'. insertMember packageExample 2 9 (Some 4) = Inr c'
      \<and> scopeMembers c' 2 [3, 4, 9]
      \<and> map (\<lambda>x. indexInScope (symbols c' x)) [3, 4, 9] = [1, 2, 3])
   \<and> (\<exists>c'. insertMember packageExample 2 9 None = Inr c'
      \<and> scopeMembers c' 2 [9, 3, 4]
      \<and> map (\<lambda>x. indexInScope (symbols c' x)) [9, 3, 4] = [1, 1, 2])"
proof -
  note ev = packageExample_members packageExample_symbols
  have orphan: "parentScope (symbols packageExample 9) = None"
    "nextInScope (symbols packageExample 9) = None"
    "lastMember (scopes packageExample 2) = Some 4"
    by (simp_all add: packageExample_def build_defs)
  have a: "\<exists>c'. insertMember packageExample 2 9 (Some 3) = Inr c'
      \<and> scopeMembers c' 2 [3, 9, 4]
      \<and> map (\<lambda>x. indexInScope (symbols c' x)) [3, 9, 4] = [1, 1, 2]"
    using insertMember_index_order [of packageExample 2 "[3, 4]" 9 "Some 3"]
    by (auto simp: ev orphan)
  have b: "\<exists>c'. insertMember packageExample 2 9 (Some 4) = Inr c'
      \<and> scopeMembers c' 2 [3, 4, 9]
      \<and> map (\<lambda>x. indexInScope (symbols c' x)) [3, 4, 9] = [1, 2, 3]"
    using insertMember_index_order [of packageExample 2 "[3, 4]" 9 "Some 4"]
    by (auto simp: ev orphan)
  have c: "\<exists>c'. insertMember packageExample 2 9 None = Inr c'
      \<and> scopeMembers c' 2 [9, 3, 4]
      \<and> map (\<lambda>x. indexInScope (symbols c' x)) [9, 3, 4] = [1, 1, 2]"
    using insertMember_index_order [of packageExample 2 "[3, 4]" 9 None]
    by (auto simp: ev orphan)
  from a b c show ?thesis by blast
qed



subsection \<open>Top-level instances\<close>

lemma insertMember_fields:
  assumes "insertMember c this member at = Inr c'"
  shows "name (symbols c' x) = name (symbols c x)"
    and "kind (symbols c' x) = kind (symbols c x)"
    and "definitionOf (symbols c' x) = definitionOf (symbols c x)"
    and "definitionKind (symbols c' x) = definitionKind (symbols c x)"
    and "parameters (symbols c' x) = parameters (symbols c x)"
    and "root c' = root c"
    and "nextFree c' = nextFree c"
  using assms
  by (auto simp: insertMember_def Let_def split: option.splits if_splits)

lemma addMember_instance:
  "kind (symbols c s) = ModuleInstance \<Longrightarrow>
   addMember c this s = insertMember c this s (lastMember (scopes c this))"
  by (simp add: addMember_def)

lemma instantiateAll_effect:
  assumes "\<forall>d\<in>set ds. d < nextFree c"
  shows "\<exists>c' insts. instantiateAll c ds acc = Inr (acc @ insts, c')
     \<and> map (\<lambda>i. definitionOf (symbols c' i)) insts = ds
     \<and> map (\<lambda>i. name (symbols c' i)) insts = map (\<lambda>d. name (symbols c d)) ds
     \<and> list_all (\<lambda>i. kind (symbols c' i) = ModuleInstance
                     \<and> parentScope (symbols c' i) = Some (root c)) insts
     \<and> nextFree c \<le> nextFree c' \<and> root c' = root c
     \<and> (\<forall>x. x < nextFree c \<longrightarrow>
           name (symbols c' x) = name (symbols c x)
           \<and> kind (symbols c' x) = kind (symbols c x)
           \<and> definitionOf (symbols c' x) = definitionOf (symbols c x))
     \<and> (\<forall>x. parentScope (symbols c x) = Some (root c) \<longrightarrow> x < nextFree c \<longrightarrow>
           parentScope (symbols c' x) = Some (root c))"
  using assms
proof (induction ds arbitrary: c acc)
  case Nil
  then show ?case by simp
next
  case (Cons d ds)
  let ?s = "(newSymbol ModuleInstance (name (symbols c d)))\<lparr>definitionOf := d\<rparr>"
  let ?i = "nextFree c"
  define c1 where "c1 = snd (emplace c ?s)"
  have em: "instantiate c (name (symbols c d)) d = (?i, c1)"
    by (simp add: instantiate_def c1_def emplace_def)
  have c1: "symbols c1 = (symbols c)(?i := ?s)" "nextFree c1 = Suc ?i" "root c1 = root c"
    by (simp_all add: c1_def emplace_def)
  have "kind (symbols c1 ?i) = ModuleInstance" by (simp add: c1 newSymbol_def)
  then have am: "addMember c1 (root c1) ?i = insertMember c1 (root c) ?i (lastMember (scopes c1 (root c)))"
    by (simp add: addMember_instance c1)
  have "parentScope (symbols c1 ?i) = None" "nextInScope (symbols c1 ?i) = None"
    by (simp_all add: c1 newSymbol_def)
  from insertMember_returns [OF this] obtain c2 where
    c2: "insertMember c1 (root c) ?i (lastMember (scopes c1 (root c))) = Inr c2" by blast
  note f = insertMember_fields [OF c2]
  note o = insertMember_other [OF c2]
  note m = insertMember_member [OF c2]
  have "\<forall>d\<in>set ds. d < nextFree c2" using Cons.prems f(7) c1 by auto
  from Cons.IH [OF this, of "acc @ [?i]"] obtain c' insts where
    r: "instantiateAll c2 ds (acc @ [?i]) = Inr ((acc @ [?i]) @ insts, c')"
       "map (\<lambda>i. definitionOf (symbols c' i)) insts = ds"
       "map (\<lambda>i. name (symbols c' i)) insts = map (\<lambda>d. name (symbols c2 d)) ds"
       "list_all (\<lambda>i. kind (symbols c' i) = ModuleInstance
                     \<and> parentScope (symbols c' i) = Some (root c2)) insts"
       "nextFree c2 \<le> nextFree c'" "root c' = root c2"
       "\<forall>x. x < nextFree c2 \<longrightarrow>
           name (symbols c' x) = name (symbols c2 x)
           \<and> kind (symbols c' x) = kind (symbols c2 x)
           \<and> definitionOf (symbols c' x) = definitionOf (symbols c2 x)"
       "\<forall>x. parentScope (symbols c2 x) = Some (root c2) \<longrightarrow> x < nextFree c2 \<longrightarrow>
           parentScope (symbols c' x) = Some (root c2)"
    by blast
  have nf: "nextFree c2 = Suc ?i" "root c2 = root c" using f c1 by simp_all
  have old: "\<And>x. x < ?i \<Longrightarrow> name (symbols c2 x) = name (symbols c x)
      \<and> kind (symbols c2 x) = kind (symbols c x)
      \<and> definitionOf (symbols c2 x) = definitionOf (symbols c x)"
    by (simp add: f c1)
  have new: "name (symbols c2 ?i) = name (symbols c d)" "kind (symbols c2 ?i) = ModuleInstance"
    "definitionOf (symbols c2 ?i) = d" "parentScope (symbols c2 ?i) = Some (root c)"
    using m(2) by (simp_all add: f c1 newSymbol_def)
  have 1: "instantiateAll c (d # ds) acc = Inr (acc @ (?i # insts), c')"
    using em am c2 r(1) by simp
  have 2: "map (\<lambda>i. definitionOf (symbols c' i)) (?i # insts) = d # ds"
    using r(2) r(7) new nf by simp
  have "map (\<lambda>d. name (symbols c2 d)) ds = map (\<lambda>d. name (symbols c d)) ds"
    using Cons.prems by (intro map_cong) (auto simp: old)
  then have 3: "map (\<lambda>i. name (symbols c' i)) (?i # insts) = map (\<lambda>d. name (symbols c d)) (d # ds)"
    using r(3) r(7) new nf by simp
  have 4: "list_all (\<lambda>i. kind (symbols c' i) = ModuleInstance
                     \<and> parentScope (symbols c' i) = Some (root c)) (?i # insts)"
    using r(4) r(7) r(8) new nf by simp
  have 5: "nextFree c \<le> nextFree c'" "root c' = root c" using r(5,6) nf by simp_all
  have 6: "\<forall>x. x < nextFree c \<longrightarrow>
           name (symbols c' x) = name (symbols c x)
           \<and> kind (symbols c' x) = kind (symbols c x)
           \<and> definitionOf (symbols c' x) = definitionOf (symbols c x)"
    using r(7) nf old by auto
  have 7: "\<forall>x. parentScope (symbols c x) = Some (root c) \<longrightarrow> x < nextFree c \<longrightarrow>
           parentScope (symbols c' x) = Some (root c)"
  proof (intro allI impI)
    fix x assume p: "parentScope (symbols c x) = Some (root c)" and x: "x < nextFree c"
    then have "parentScope (symbols c2 x) = Some (root c)" using o(2) [of x] c1 by simp
    with r(8) nf x show "parentScope (symbols c' x) = Some (root c)" by simp
  qed
  show ?case
    by (rule exI [of _ c'], rule exI [of _ "?i # insts"]) (intro conjI 1 2 3 4 5 6 7)
qed


lemma isTopLevel_iff:
  "isTopLevel c ((n, s), d) \<longleftrightarrow>
     s = root c \<and> definitionKind (symbols c d) = Module
     \<and> name (symbols c d) \<notin> set (globalInstantiations c)
     \<and> list_all (\<lambda>hasDefault. hasDefault) (parameters (symbols c d))"
  by (simp add: isTopLevel_def)

lemma isTopLevel_finalizing: "isTopLevel (c\<lparr>finalizing := b\<rparr>) = isTopLevel c"
  by (rule ext) (simp add: isTopLevel_def)

text \<open>
  C2: for every compilation that is not finalized (and not in the middle of
  finalizing) and whose definitions are symbols of the arena, the first \<open>getRoot\<close>
  returns a finalized compilation, on which \<open>getRoot\<close> changes nothing any more. The
  definitions of its top-level instances are exactly the definitions whose entry is
  keyed under the root, whose kind is Module, whose name is not in the set of global
  instantiations and whose parameters all have defaults; they are listed sorted by
  definition name, each instance is a module instance under the root, and it carries
  the name of its definition.
\<close>

theorem getRoot_top_instances:
  assumes "\<not> finalized c" "\<not> finalizing c"
    and arena: "list_all (\<lambda>e. snd e < nextFree c) (definitionMap c)"
  shows "\<exists>c'. getRoot c = Inr c' \<and> finalized c' \<and> getRoot c' = Inr c'
     \<and> map (\<lambda>i. definitionOf (symbols c' i)) (topInstances c')
         = sort_key (\<lambda>d. name (symbols c d)) (map snd (filter (isTopLevel c) (definitionMap c)))
     \<and> set (map (\<lambda>i. definitionOf (symbols c' i)) (topInstances c'))
         = {d. \<exists>n. ((n, root c), d) \<in> set (definitionMap c)
                \<and> definitionKind (symbols c d) = Module
                \<and> name (symbols c d) \<notin> set (globalInstantiations c)
                \<and> list_all (\<lambda>hasDefault. hasDefault) (parameters (symbols c d))}
     \<and> sorted (map (\<lambda>i. name (symbols c (definitionOf (symbols c' i)))) (topInstances c'))
     \<and> map (\<lambda>i. name (symbols c' i)) (topInstances c')
         = map (\<lambda>i. name (symbols c (definitionOf (symbols c' i)))) (topInstances c')
     \<and> list_all (\<lambda>i. kind (symbols c' i) = ModuleInstance
                     \<and> parentScope (symbols c' i) = Some (root c)) (topInstances c')"
proof -
  let ?c1 = "c\<lparr>finalizing := True\<rparr>"
  let ?top = "map snd (filter (isTopLevel c) (definitionMap c))"
  let ?ds = "sort_key (\<lambda>d. name (symbols c d)) ?top"
  have "\<forall>d\<in>set ?ds. d < nextFree ?c1" using arena by (auto simp: list_all_iff)
  from instantiateAll_effect [OF this, of "[]"] obtain c2 insts where
    r: "instantiateAll ?c1 ?ds [] = Inr (insts, c2)"
       "map (\<lambda>i. definitionOf (symbols c2 i)) insts = ?ds"
       "map (\<lambda>i. name (symbols c2 i)) insts = map (\<lambda>d. name (symbols c d)) ?ds"
       "list_all (\<lambda>i. kind (symbols c2 i) = ModuleInstance
                     \<and> parentScope (symbols c2 i) = Some (root c)) insts"
    by auto
  let ?c' = "c2\<lparr>topInstances := insts, rootCompilationUnits := compilationUnits c2,
                finalized := True, finalizing := False\<rparr>"
  have g: "getRoot c = Inr ?c'"
    using assms(1,2) r(1) by (simp add: getRoot_def isTopLevel_finalizing)
  have s: "set ?ds = {d. \<exists>n. ((n, root c), d) \<in> set (definitionMap c)
                \<and> definitionKind (symbols c d) = Module
                \<and> name (symbols c d) \<notin> set (globalInstantiations c)
                \<and> list_all (\<lambda>hasDefault. hasDefault) (parameters (symbols c d))}"
    by (auto simp: isTopLevel_iff image_iff)
  have srt: "sorted (map (\<lambda>d. name (symbols c d)) ?ds)" by (rule sorted_sort_key)
  have m: "map (\<lambda>i. name (symbols c (definitionOf (symbols c2 i)))) insts
             = map (\<lambda>d. name (symbols c d)) ?ds"
  proof -
    have "map (\<lambda>i. name (symbols c (definitionOf (symbols c2 i)))) insts
        = map (\<lambda>d. name (symbols c d)) (map (\<lambda>i. definitionOf (symbols c2 i)) insts)"
      by (simp add: comp_def)
    then show ?thesis by (simp only: r(2))
  qed
  show ?thesis
    apply (rule exI [of _ ?c'])
    using g r s srt m by (simp add: getRoot_def)
qed


text \<open>
  The property in \<open>topLevelExample\<close>: of the six definitions only \<open>A\<close> and \<open>B\<close> qualify, and
  the instances come out in the order \<open>A\<close>, \<open>B\<close> although the map yields \<open>B\<close> first.
\<close>

theorem getRoot_top_instances_witness:
  "\<exists>c'. getRoot topLevelExample = Inr c' \<and> finalized c'
     \<and> map (\<lambda>i. definitionOf (symbols c' i)) (topInstances c') = [2, 3]
     \<and> map (\<lambda>i. name (symbols c' i)) (topInstances c') = [''A'', ''B'']
     \<and> list_all (\<lambda>i. kind (symbols c' i) = ModuleInstance
                     \<and> parentScope (symbols c' i) = Some 0) (topInstances c')"
proof -
  have top: "map snd (filter (isTopLevel topLevelExample) (definitionMap topLevelExample)) = [3, 2]"
    by (simp add: topLevelExample_def isTopLevel_def newCompilation_def newSymbol_def)
  have names: "name (symbols topLevelExample 2) = ''A''" "name (symbols topLevelExample 3) = ''B''"
    "root topLevelExample = 0"
    by (simp_all add: topLevelExample_def newCompilation_def newSymbol_def)
  have pre: "\<not> finalized topLevelExample" "\<not> finalizing topLevelExample"
    "list_all (\<lambda>e. snd e < nextFree topLevelExample) (definitionMap topLevelExample)"
    by (simp_all add: topLevelExample_def newCompilation_def)
  from getRoot_top_instances [OF pre] show ?thesis
    unfolding top by (auto simp: names)
qed

subsection \<open>Coalescing\<close>

text \<open>
  Every group of the diagnostic map has an occurrence, and \<open>addDiag\<close> keeps it so: it
  makes a group with one occurrence or appends to a group.
\<close>

lemma list_all_alist_update:
  "list_all (\<lambda>e. P (snd e)) kvs \<Longrightarrow> P v \<Longrightarrow> list_all (\<lambda>e. P (snd e)) (alist_update k v kvs)"
  by (induction kvs) (auto simp: alist_update_def)

lemma addDiag_groups_nonempty:
  assumes "addDiag c d = Some (Inr (r, c'))"
    and "list_all (\<lambda>e. fst (snd e) \<noteq> []) (diagMap c)"
  shows "list_all (\<lambda>e. fst (snd e) \<noteq> []) (diagMap c')"
proof -
  have upd: "list_all (\<lambda>e. fst (snd e) \<noteq> []) (alist_update k (ds @ [d], i) (diagMap c))"
    for k ds i
    using list_all_alist_update [of "\<lambda>v. fst v \<noteq> []" "diagMap c" "(ds @ [d], i)" k] assms(2)
    by simp
  from assms show ?thesis
    by (auto simp: addDiag_def Let_def upd split: if_splits option.splits prod.splits)
qed

lemma getInstanceOrDef_None: "getInstanceOrDef h None = Some None"
  by (subst getInstanceOrDef.simps) simp

lemma getInstanceOrDef_self:
  "kind (h i) = Definition \<or> isInstanceKind (kind (h i)) \<Longrightarrow>
   getInstanceOrDef h (Some i) = Some (Some i)"
  by (subst getInstanceOrDef.simps) auto

lemma getInstanceOrDef_up:
  "kind (h s) \<noteq> Definition \<Longrightarrow> \<not> isInstanceKind (kind (h s)) \<Longrightarrow>
   getInstanceOrDef h (Some s) = getInstanceOrDef h (parentScope (h s))"
  by (subst getInstanceOrDef.simps) simp

lemma getInstanceOrDef_rooted:
  "rooted h s \<Longrightarrow> \<exists>r. getInstanceOrDef h (Some s) = Some r"
proof (induction rule: rooted.induct)
  case (top s)
  then show ?case
    by (cases "kind (h s) = Definition \<or> isInstanceKind (kind (h s))")
       (auto simp: getInstanceOrDef_self getInstanceOrDef_up getInstanceOrDef_None)
next
  case (below s p)
  then show ?case
    by (cases "kind (h s) = Definition \<or> isInstanceKind (kind (h s))")
       (auto simp: getInstanceOrDef_self getInstanceOrDef_up)
qed

lemma getInstanceOrDef_result:
  "rooted h s \<Longrightarrow> getInstanceOrDef h (Some s) = Some (Some i) \<Longrightarrow>
   rooted h i \<and> getInstanceOrDef h (Some i) = Some (Some i)
   \<and> (kind (h i) = Definition \<or> isInstanceKind (kind (h i)))"
proof (induction rule: rooted.induct)
  case (top s)
  show ?case
  proof (cases "kind (h s) = Definition \<or> isInstanceKind (kind (h s))")
    case True
    with top.prems have "i = s" by (simp add: getInstanceOrDef_self)
    with True top.hyps show ?thesis by (auto simp: getInstanceOrDef_self intro: rooted.top)
  next
    case False
    with top show ?thesis by (simp add: getInstanceOrDef_up getInstanceOrDef_None)
  qed
next
  case (below s p)
  show ?case
  proof (cases "kind (h s) = Definition \<or> isInstanceKind (kind (h s))")
    case True
    with below.prems have "i = s" by (simp add: getInstanceOrDef_self)
    with True below.hyps show ?thesis by (auto simp: getInstanceOrDef_self intro: rooted.below)
  next
    case False
    with below.prems below.hyps(1) have "getInstanceOrDef h (Some p) = Some (Some i)"
      by (simp add: getInstanceOrDef_up)
    then show ?thesis by (rule below.IH)
  qed
qed


text \<open>
  The walks of the code against the words of the specification. The effective instance
  is unique, and \<open>getInstanceOrDef\<close> returns it; on a parent chain that ends,
  \<open>getInstanceOrDef\<close> returns nothing else, and the \<open>isInsideDef\<close> of
  \<open>getSemanticDiagnostics\<close> answers whether the symbol is inside a definition.
\<close>

lemma effectiveInstanceOf_kind:
  "effectiveInstanceOf h s i \<Longrightarrow> kind (h i) = Definition \<or> isInstanceKind (kind (h i))"
  by (induction rule: effectiveInstanceOf.induct) auto

lemma effectiveInstanceOf_unique:
  "effectiveInstanceOf h s i \<Longrightarrow> effectiveInstanceOf h s j \<Longrightarrow> i = j"
proof (induction arbitrary: j rule: effectiveInstanceOf.induct)
  case (here s)
  from here(2) here(1) show ?case by (cases rule: effectiveInstanceOf.cases) auto
next
  case (above s p i)
  from above.prems above.hyps(1,2,3) have "effectiveInstanceOf h p j"
    by (cases rule: effectiveInstanceOf.cases) auto
  then show ?case by (rule above.IH)
qed

lemma effectiveInstanceOf_walk:
  "effectiveInstanceOf h s i \<Longrightarrow> getInstanceOrDef h (Some s) = Some (Some i)"
  by (induction rule: effectiveInstanceOf.induct)
     (simp_all add: getInstanceOrDef_self getInstanceOrDef_up)

lemma getInstanceOrDef_effective:
  "rooted h s \<Longrightarrow> getInstanceOrDef h (Some s) = Some (Some i) \<Longrightarrow> effectiveInstanceOf h s i"
proof (induction rule: rooted.induct)
  case (top s)
  show ?case
  proof (cases "kind (h s) = Definition \<or> isInstanceKind (kind (h s))")
    case True
    with top.prems have "i = s" by (simp add: getInstanceOrDef_self)
    with True show ?thesis by (simp add: effectiveInstanceOf.here)
  next
    case False
    with top show ?thesis by (simp add: getInstanceOrDef_up getInstanceOrDef_None)
  qed
next
  case (below s p)
  show ?case
  proof (cases "kind (h s) = Definition \<or> isInstanceKind (kind (h s))")
    case True
    with below.prems have "i = s" by (simp add: getInstanceOrDef_self)
    with True show ?thesis by (simp add: effectiveInstanceOf.here)
  next
    case False
    with below.prems below.hyps(1) have "getInstanceOrDef h (Some p) = Some (Some i)"
      by (simp add: getInstanceOrDef_up)
    then have "effectiveInstanceOf h p i" by (rule below.IH)
    with False below.hyps(1) show ?thesis by (auto intro: effectiveInstanceOf.above)
  qed
qed

lemma insideDefinition_step:
  "insideDefinition h s =
     (kind (h s) = Definition \<or> (\<exists>p. parentScope (h s) = Some p \<and> insideDefinition h p))"
  unfolding insideDefinition_def
  by (subst ancestor.simps) auto

lemma isInsideDef_insideDefinition:
  "rooted h s \<Longrightarrow> isInsideDef h s = Some (insideDefinition h s)"
proof (induction rule: rooted.induct)
  case (top s)
  then show ?case
    by (subst isInsideDef.simps, subst insideDefinition_step) simp
next
  case (below s p)
  then show ?case
    by (subst isInsideDef.simps, subst insideDefinition_step) simp
qed

lemma qualifies_iff:
  "diagSymbol d = Some s \<Longrightarrow> effectiveInstanceOf h s i \<Longrightarrow>
   qualifies h d = (parentScope (h i) \<noteq> None \<and> \<not> insideDefinition h i)"
  unfolding qualifies_def by (auto dest: effectiveInstanceOf_unique)

lemma prefers_iff:
  "diagSymbol d = Some s \<Longrightarrow> effectiveInstanceOf h s i \<Longrightarrow>
   prefers h d = (\<exists>p. parentScope (h i) = Some p \<and> \<not> insideDefinition h i
                     \<and> kind (h p) \<noteq> Root \<and> kind (h p) \<noteq> CompilationUnit)"
  unfolding prefers_def by (auto dest: effectiveInstanceOf_unique)


lemma not_effective:
  assumes "diagSymbol d = None \<or> (\<exists>s. diagSymbol d = Some s \<and> (\<forall>i. \<not> effectiveInstanceOf h s i))"
  shows "\<not> qualifies h d" "\<not> prefers h d"
  using assms by (auto simp: qualifies_def prefers_def)

text \<open>
  The loop over the occurrences: \<open>found\<close> is the last preferred occurrence, \<open>inst\<close> its
  effective instance, and \<open>count\<close> the number of qualifying occurrences.
\<close>

lemma pickInstance_spec:
  assumes "list_all (\<lambda>d. case diagSymbol d of None \<Rightarrow> True | Some s \<Rightarrow> rooted h s) ds"
  shows "pickInstance h ds (found, inst, count) =
     Some (case rev (filter (prefers h) ds) of [] \<Rightarrow> found | f # _ \<Rightarrow> Some f,
           case rev (filter (prefers h) ds) of
             [] \<Rightarrow> inst
           | f # _ \<Rightarrow> (case getInstanceOrDef h (diagSymbol f) of None \<Rightarrow> None | Some r \<Rightarrow> r),
           count + length (filter (qualifies h) ds))"
  using assms
proof (induction ds arbitrary: found inst count)
  case Nil
  then show ?case by simp
next
  case (Cons d ds)
  then have rest: "list_all (\<lambda>d. case diagSymbol d of None \<Rightarrow> True | Some s \<Rightarrow> rooted h s) ds"
    by simp
  note IH = Cons.IH [OF rest]
  show ?case
  proof (cases "diagSymbol d")
    case None
    then have "\<not> qualifies h d" "\<not> prefers h d" by (simp_all add: not_effective)
    then show ?thesis using None IH by (simp add: getInstanceOrDef_None)
  next
    case (Some s)
    with Cons.prems have rs: "rooted h s" by simp
    from getInstanceOrDef_rooted [OF rs] obtain r where
      r: "getInstanceOrDef h (Some s) = Some r" by blast
    show ?thesis
    proof (cases r)
      case None
      with r have "\<not> effectiveInstanceOf h s i" for i
        by (auto dest: effectiveInstanceOf_walk)
      with Some have "\<not> qualifies h d" "\<not> prefers h d" by (simp_all add: not_effective)
      then show ?thesis using None Some r IH by simp
    next
      case (Some i)
      with r have eff: "effectiveInstanceOf h s i" by (simp add: getInstanceOrDef_effective [OF rs])
      note q = qualifies_iff [OF \<open>diagSymbol d = Some s\<close> eff]
      note pr = prefers_iff [OF \<open>diagSymbol d = Some s\<close> eff]
      from Some r getInstanceOrDef_result [OF rs] have ri: "rooted h i" by simp
      note b = isInsideDef_insideDefinition [OF ri]
      show ?thesis
      proof (cases "parentScope (h i)")
        case None
        with q pr have "\<not> qualifies h d" "\<not> prefers h d" by simp_all
        then show ?thesis using None Some \<open>diagSymbol d = Some s\<close> r IH by simp
      next
        case (Some p)
        note p = Some
        show ?thesis
        proof (cases "insideDefinition h i")
          case True
          with q pr have "\<not> qualifies h d" "\<not> prefers h d" by simp_all
          then show ?thesis using p \<open>r = Some i\<close> \<open>diagSymbol d = Some s\<close> r b True IH by simp
        next
          case False
          with q p have qd: "qualifies h d" by simp
          show ?thesis
          proof (cases "kind (h p) \<noteq> Root \<and> kind (h p) \<noteq> CompilationUnit")
            case True
            with pr False p have prd: "prefers h d" by simp
            show ?thesis
              using p \<open>r = Some i\<close> \<open>diagSymbol d = Some s\<close> r b False True qd prd
                IH [of "Some d" "Some i" "count + 1"]
              by (simp split: list.splits)
          next
            case nt: False
            with pr p have prd: "\<not> prefers h d" by simp
            show ?thesis
              using p \<open>r = Some i\<close> \<open>diagSymbol d = Some s\<close> r b False nt qd prd
                IH [of found inst "count + 1"]
              by auto
          qed
        qed
      qed
    qed
  qed
qed

text \<open>
  For a group with an occurrence, the body of the loop over the groups issues a
  diagnostic, and it is the one the specification describes.
\<close>

lemma coalesce_spec:
  assumes r: "list_all (\<lambda>d. case diagSymbol d of None \<Rightarrow> True | Some s \<Rightarrow> rooted h s) ds"
    and ne: "ds \<noteq> []"
  shows "\<exists>d. coalesce h instanceCount (ds, idx) = Some (Inr d)
            \<and> issuedFor h instanceCount (ds, idx) d"
proof (cases "unat idx < length ds")
  case True
  then show ?thesis by (simp add: coalesce_def issuedFor_def)
next
  case False
  note pick = pickInstance_spec [OF r, of None None 0]
  have fr: "front ds = Inr (hd ds)" using ne by (cases ds) (simp_all add: front_def)
  show ?thesis
  proof (cases "rev (filter (prefers h) ds)")
    case Nil
    then show ?thesis using False pick fr by (simp add: coalesce_def issuedFor_def)
  next
    case (Cons f fs)
    then have "f \<in> set (filter (prefers h) ds)" by (metis list.set_intros(1) set_rev)
    then have pf: "prefers h f" by simp
    then obtain s i where s: "diagSymbol f = Some s" and eff: "effectiveInstanceOf h s i"
      by (auto simp: prefers_def)
    from eff have g: "getInstanceOrDef h (Some s) = Some (Some i)"
      by (rule effectiveInstanceOf_walk)
    from effectiveInstanceOf_kind [OF eff]
    have self: "getInstanceOrDef h (Some i) = Some (Some i)" by (rule getInstanceOrDef_self)
    let ?n = "length (filter (qualifies h) ds)"
    let ?d = "if ?n < instanceCount (definitionOf (h i))
              then f\<lparr>diagSymbol := Some i, coalesceCount := Some ?n\<rparr> else hd ds"
    have "coalesce h instanceCount (ds, idx) = Some (Inr ?d)"
      using False pick fr Cons s g self by (simp add: coalesce_def)
    moreover have "issuedFor h instanceCount (ds, idx) ?d"
      using False Cons s eff by (auto simp: issuedFor_def Let_def)
    ultimately show ?thesis by blast
  qed
qed

lemma coalesceAll_spec:
  assumes "list_all (\<lambda>(ds, idx). ds \<noteq> [] \<and>
      list_all (\<lambda>d. case diagSymbol d of None \<Rightarrow> True | Some s \<Rightarrow> rooted h s) ds) entries"
  shows "\<exists>issued. coalesceAll h instanceCount entries results = Some (Inr (results @ issued))
           \<and> list_all2 (issuedFor h instanceCount) entries issued"
  using assms
proof (induction entries arbitrary: results)
  case Nil
  then show ?case by simp
next
  case (Cons e es)
  obtain ds idx where e: "e = (ds, idx)" by (cases e)
  with Cons.prems obtain d where d: "coalesce h instanceCount e = Some (Inr d)"
      "issuedFor h instanceCount e d"
    using coalesce_spec [of h ds instanceCount idx] by auto
  from Cons.prems have "list_all (\<lambda>(ds, idx). ds \<noteq> [] \<and>
      list_all (\<lambda>d. case diagSymbol d of None \<Rightarrow> True | Some s \<Rightarrow> rooted h s) ds) es"
    by simp
  from Cons.IH [OF this, of "results @ [d]"] obtain rest where
    rest: "coalesceAll h instanceCount es (results @ [d]) = Some (Inr ((results @ [d]) @ rest))"
      "list_all2 (issuedFor h instanceCount) es rest" by blast
  have "coalesceAll h instanceCount (e # es) results = Some (Inr (results @ d # rest))"
    using d(1) rest(1) by simp
  moreover have "list_all2 (issuedFor h instanceCount) (e # es) (d # rest)"
    using d(2) rest(2) by simp
  ultimately show ?case by blast
qed

text \<open>The specification describes one diagnostic for a group, not several.\<close>

lemma issuedFor_unique:
  assumes "issuedFor h instanceCount entry d" and "issuedFor h instanceCount entry d'"
  shows "d = d'"
proof (cases "unat (snd entry) < length (fst entry)")
  case True
  with assms show ?thesis by (simp add: issuedFor_def Let_def)
next
  case False
  show ?thesis
  proof (cases "rev (filter (prefers h) (fst entry))")
    case Nil
    with False assms show ?thesis by (simp add: issuedFor_def Let_def)
  next
    case (Cons f fs)
    with False assms show ?thesis
      by (auto simp: issuedFor_def Let_def dest: effectiveInstanceOf_unique)
  qed
qed

text \<open>
  C4: when nothing is cached, every group of the diagnostic map has an occurrence and
  the parent chains of the reporting symbols end, \<open>getSemanticDiagnostics\<close> returns,
  before sorting, exactly one diagnostic for each group of the map, in the order of
  the map, and that diagnostic is the one \<open>issuedFor\<close> describes: the occurrence at
  the definition index if that is an index of the list; otherwise a copy of the last
  preferred occurrence, with the effective instance as its symbol and the number of
  qualifying occurrences as its coalesce count, if there is a preferred occurrence and
  the instances counted for the definition of its instance outnumber the qualifying
  occurrences; otherwise the first occurrence. The list is sorted if there is a source
  manager, and cached. The effective instance, the qualifying and the preferred
  occurrences are those of \<open>effectiveInstanceOf\<close>, \<open>qualifies\<close> and \<open>prefers\<close>, which are
  stated over the parent relation and not by the walks of the code.
\<close>

theorem getSemanticDiagnostics_coalesces:
  assumes "cachedSemanticDiagnostics c = None"
    and "getRoot c = Inr c1"
    and "visit (effectiveErrorLimit (errorLimit c1)) c1 = (c2, instanceCount)"
    and "list_all (\<lambda>(ds, idx). ds \<noteq> [] \<and>
           list_all (\<lambda>d. case diagSymbol d of None \<Rightarrow> True | Some s \<Rightarrow> rooted (symbols c2) s) ds)
         (map snd (diagMap c2))"
  shows "\<exists>results.
      getSemanticDiagnostics visit sortDiags c
        = Some (Inr (if hasSourceManager c2 then sortDiags results else results,
             c2\<lparr>cachedSemanticDiagnostics :=
                  Some (if hasSourceManager c2 then sortDiags results else results)\<rparr>))
      \<and> list_all2 (issuedFor (symbols c2) instanceCount) (map snd (diagMap c2)) results"
proof -
  from coalesceAll_spec [OF assms(4), of instanceCount "[]"] obtain results where
    1: "coalesceAll (symbols c2) instanceCount (map snd (diagMap c2)) [] = Some (Inr results)"
    and 2: "list_all2 (issuedFor (symbols c2) instanceCount) (map snd (diagMap c2)) results"
    by auto
  from assms(1,2,3) 1 have "getSemanticDiagnostics visit sortDiags c
        = Some (Inr (if hasSourceManager c2 then sortDiags results else results,
             c2\<lparr>cachedSemanticDiagnostics :=
                  Some (if hasSourceManager c2 then sortDiags results else results)\<rparr>))"
    by (simp add: getSemanticDiagnostics_def Let_def)
  with 2 show ?thesis by blast
qed


text \<open>
  The symbols of \<open>hierarchyExample\<close>: their effective instances, and which of these are
  inside a definition, from the parent relation alone.
\<close>

lemma hierarchyExample_fields:
  "kind (hierarchyExample 0) = Root" "parentScope (hierarchyExample 0) = None"
  "kind (hierarchyExample 2) = Definition" "parentScope (hierarchyExample 2) = None"
  "kind (hierarchyExample 3) = Definition" "parentScope (hierarchyExample 3) = None"
  "kind (hierarchyExample 4) = ModuleInstance" "parentScope (hierarchyExample 4) = Some 0"
  "kind (hierarchyExample 5) = ModuleInstance" "parentScope (hierarchyExample 5) = Some 4"
  "kind (hierarchyExample 6) = ModuleInstance" "parentScope (hierarchyExample 6) = Some 4"
  "kind (hierarchyExample 7) = ModuleInstance" "parentScope (hierarchyExample 7) = Some 4"
  "kind (hierarchyExample 8) = Variable" "parentScope (hierarchyExample 8) = Some 5"
  "kind (hierarchyExample 9) = Variable" "parentScope (hierarchyExample 9) = Some 6"
  "kind (hierarchyExample 10) = Variable" "parentScope (hierarchyExample 10) = Some 7"
  "kind (hierarchyExample 11) = ModuleInstance" "parentScope (hierarchyExample 11) = Some 3"
  "kind (hierarchyExample 12) = Variable" "parentScope (hierarchyExample 12) = Some 11"
  "kind (hierarchyExample 13) = ModuleInstance" "parentScope (hierarchyExample 13) = Some 3"
  "kind (hierarchyExample 14) = Variable" "parentScope (hierarchyExample 14) = Some 13"
  "kind (hierarchyExample 15) = ModuleInstance" "parentScope (hierarchyExample 15) = Some 0"
  "kind (hierarchyExample 16) = Variable" "parentScope (hierarchyExample 16) = Some 15"
  "definitionOf (hierarchyExample 5) = 2" "definitionOf (hierarchyExample 6) = 2"
  by (simp_all add: hierarchyExample_def newSymbol_def)

lemma hierarchyExample_rooted:
  "rooted hierarchyExample 2" "rooted hierarchyExample 8" "rooted hierarchyExample 9"
  "rooted hierarchyExample 10" "rooted hierarchyExample 12" "rooted hierarchyExample 14"
  "rooted hierarchyExample 16"
proof -
  note f = hierarchyExample_fields
  have 0: "rooted hierarchyExample 0" by (rule rooted.top) (simp add: f)
  have 3: "rooted hierarchyExample 3" by (rule rooted.top) (simp add: f)
  have 4: "rooted hierarchyExample 4" by (rule rooted.below [OF _ 0]) (simp add: f)
  have 5: "rooted hierarchyExample 5" by (rule rooted.below [OF _ 4]) (simp add: f)
  have 6: "rooted hierarchyExample 6" by (rule rooted.below [OF _ 4]) (simp add: f)
  have 7: "rooted hierarchyExample 7" by (rule rooted.below [OF _ 4]) (simp add: f)
  have 11: "rooted hierarchyExample 11" by (rule rooted.below [OF _ 3]) (simp add: f)
  have 13: "rooted hierarchyExample 13" by (rule rooted.below [OF _ 3]) (simp add: f)
  show "rooted hierarchyExample 2" by (rule rooted.top) (simp add: f)
  show "rooted hierarchyExample 8" by (rule rooted.below [OF _ 5]) (simp add: f)
  show "rooted hierarchyExample 9" by (rule rooted.below [OF _ 6]) (simp add: f)
  show "rooted hierarchyExample 10" by (rule rooted.below [OF _ 7]) (simp add: f)
  show "rooted hierarchyExample 12" by (rule rooted.below [OF _ 11]) (simp add: f)
  show "rooted hierarchyExample 14" by (rule rooted.below [OF _ 13]) (simp add: f)
  have 15: "rooted hierarchyExample 15" by (rule rooted.below [OF _ 0]) (simp add: f)
  show "rooted hierarchyExample 16" by (rule rooted.below [OF _ 15]) (simp add: f)
qed

lemma effectiveInstanceOf_parent:
  assumes "kind (h s) \<noteq> Definition" "\<not> isInstanceKind (kind (h s))"
    and "parentScope (h s) = Some p"
    and "kind (h p) = Definition \<or> isInstanceKind (kind (h p))"
  shows "effectiveInstanceOf h s i = (i = p)"
proof -
  from assms(4) have "effectiveInstanceOf h p p" by (rule effectiveInstanceOf.here)
  with assms(1,2,3) have "effectiveInstanceOf h s p" by (rule effectiveInstanceOf.above)
  then show ?thesis by (auto dest: effectiveInstanceOf_unique)
qed

lemma hierarchyExample_effective:
  "effectiveInstanceOf hierarchyExample 2 i = (i = 2)"
  "effectiveInstanceOf hierarchyExample 8 i = (i = 5)"
  "effectiveInstanceOf hierarchyExample 9 i = (i = 6)"
  "effectiveInstanceOf hierarchyExample 10 i = (i = 7)"
  "effectiveInstanceOf hierarchyExample 12 i = (i = 11)"
  "effectiveInstanceOf hierarchyExample 14 i = (i = 13)"
  "effectiveInstanceOf hierarchyExample 16 i = (i = 15)"
proof -
  have "effectiveInstanceOf hierarchyExample 2 2"
    by (rule effectiveInstanceOf.here) (simp add: hierarchyExample_fields)
  then show "effectiveInstanceOf hierarchyExample 2 i = (i = 2)"
    by (auto dest: effectiveInstanceOf_unique)
qed (simp_all add: effectiveInstanceOf_parent hierarchyExample_fields isInstanceKind_def)

lemma hierarchyExample_inside:
  "\<not> insideDefinition hierarchyExample 4"
  "\<not> insideDefinition hierarchyExample 5"
  "\<not> insideDefinition hierarchyExample 6"
  "\<not> insideDefinition hierarchyExample 7"
  "\<not> insideDefinition hierarchyExample 15"
  "insideDefinition hierarchyExample 2"
  "insideDefinition hierarchyExample 11"
  "insideDefinition hierarchyExample 13"
proof -
  note f = hierarchyExample_fields
  have 0: "\<not> insideDefinition hierarchyExample 0"
    by (subst insideDefinition_step) (simp add: f)
  show 4: "\<not> insideDefinition hierarchyExample 4"
    by (subst insideDefinition_step) (simp add: f 0)
  show "\<not> insideDefinition hierarchyExample 5"
    by (subst insideDefinition_step) (simp add: f 4)
  show "\<not> insideDefinition hierarchyExample 6"
    by (subst insideDefinition_step) (simp add: f 4)
  show "\<not> insideDefinition hierarchyExample 7"
    by (subst insideDefinition_step) (simp add: f 4)
  show "\<not> insideDefinition hierarchyExample 15"
    by (subst insideDefinition_step) (simp add: f 0)
  show "insideDefinition hierarchyExample 2"
    by (subst insideDefinition_step) (simp add: f)
  have 3: "insideDefinition hierarchyExample 3"
    by (subst insideDefinition_step) (simp add: f)
  show "insideDefinition hierarchyExample 11"
    by (subst insideDefinition_step) (simp add: f 3)
  show "insideDefinition hierarchyExample 13"
    by (subst insideDefinition_step) (simp add: f 3)
qed

lemma qualifies_at:
  "qualifies h d =
     (case diagSymbol d of
        None \<Rightarrow> False
      | Some s \<Rightarrow> \<exists>i. effectiveInstanceOf h s i \<and> parentScope (h i) \<noteq> None
                      \<and> \<not> insideDefinition h i)"
  by (auto simp: qualifies_def split: option.splits)

lemma prefers_at:
  "prefers h d =
     (case diagSymbol d of
        None \<Rightarrow> False
      | Some s \<Rightarrow> \<exists>i p. effectiveInstanceOf h s i \<and> parentScope (h i) = Some p
                      \<and> \<not> insideDefinition h i
                      \<and> kind (h p) \<noteq> Root \<and> kind (h p) \<noteq> CompilationUnit)"
  by (auto simp: prefers_def split: option.splits)

text \<open>
  What the specification issues for the groups of \<open>coalesceExample\<close>, with four
  instances counted for \<open>M\<close> and one for \<open>T\<close>: the occurrence in the instance within
  the body of the definition \<open>T\<close> is neither counted nor preferred, so the fourth group
  is issued with a count of 1 and the fifth as its first occurrence; the occurrence in
  the instance under the root is counted but not preferred, so the sixth group is
  issued for \<open>m1\<close> with a count of 2 and the seventh as its only occurrence.
\<close>

lemma coalesceExample_issuedFor:
  "list_all2 (issuedFor hierarchyExample ((\<lambda>_. 0)(2 := 4, 3 := 1))) (map snd (diagMap coalesceExample)) rs
     = (rs = coalesceExampleIssued)"
  apply (simp add: coalesceExample_def coalesceExampleIssued_def list_all2_Cons1 issuedFor_def
      qualifies_at prefers_at errorAt_def hierarchyExample_effective hierarchyExample_inside
      hierarchyExample_fields SIZE_MAX_def)
  apply (simp add: numeral_2_eq_2)
  done


text \<open>
  The property in \<open>coalesceExample\<close>: \<open>getSemanticDiagnostics\<close> returns and caches
  the diagnostics of \<open>coalesceExampleIssued\<close>.
\<close>

theorem getSemanticDiagnostics_coalesces_witness:
  "getSemanticDiagnostics (\<lambda>limit c. (c, (\<lambda>_. 0)(2 := 4, 3 := 1))) (\<lambda>ds. ds) coalesceExample
     = Some (Inr (coalesceExampleIssued,
          coalesceExample\<lparr>cachedSemanticDiagnostics := Some coalesceExampleIssued\<rparr>))"
proof -
  have pre: "cachedSemanticDiagnostics coalesceExample = None"
    "getRoot coalesceExample = Inr coalesceExample"
    "\<not> hasSourceManager coalesceExample" "symbols coalesceExample = hierarchyExample"
    by (simp_all add: coalesceExample_def newCompilation_def getRoot_def)
  have groups: "list_all (\<lambda>(ds, idx). ds \<noteq> [] \<and>
           list_all (\<lambda>d. case diagSymbol d of None \<Rightarrow> True
                        | Some s \<Rightarrow> rooted (symbols coalesceExample) s) ds)
         (map snd (diagMap coalesceExample))"
    unfolding pre(4) by (simp add: coalesceExample_def errorAt_def hierarchyExample_rooted)
  from getSemanticDiagnostics_coalesces [of coalesceExample coalesceExample
        "\<lambda>limit c. (c, (\<lambda>_. 0)(2 := 4, 3 := 1))" coalesceExample
        "(\<lambda>_. 0)(2 := 4, 3 := 1)" "\<lambda>ds. ds", OF pre(1,2) _ groups]
  show ?thesis
    unfolding pre(4) coalesceExample_issuedFor by (simp add: pre)
qed

end
